theory Spec2Isabelle
  imports Complex_Main "HOL-Library.AList" "HOL-Library.Sublist"
begin

section \<open>Numbers\<close>

text \<open>
  The client is JavaScript: every number is an IEEE double. The development idealises
  finite doubles as \<^typ>\<open>real\<close>, so rounding is not modelled. Where a division can
  have a zero divisor (JavaScript then gives an infinity or NaN) the model says so with
  \<open>None\<close> instead of using HOL's \<open>x / 0 = 0\<close>.
\<close>

definition js_div :: "real \<Rightarrow> real \<Rightarrow> real option" where
  "js_div a b = (if b = 0 then None else Some (a / b))"

section \<open>Configuration (controls.js)\<close>

record config =
  CANVAS_WIDTH :: real
  CANVAS_HEIGHT :: real
  PIXEL_SIZE :: real
  MIN_SCALE :: real
  MAX_SCALE :: real
  COOLDOWN_TIME :: real
  DEFAULT_COLOR :: string

definition CONFIG :: config where
  "CONFIG = \<lparr> CANVAS_WIDTH = 1600, CANVAS_HEIGHT = 400, PIXEL_SIZE = 5,
     MIN_SCALE = 1/2, MAX_SCALE = 10, COOLDOWN_TIME = 60, DEFAULT_COLOR = ''#000000'' \<rparr>"

section \<open>Viewport state and the measurements read from the page\<close>

text \<open>
  \<open>canvas_state\<close> holds the fields of \<open>appState.state.canvas\<close> that the input
  controller reads and writes (the legacy \<open>PixelCanvas\<close> keeps the same four fields on
  itself). \<open>dom_env\<close> collects what the controller measures on every call: the canvas
  element's bounding rectangle, the window size, the two CSS variables as
  \<open>parseInt\<close> returns them (\<open>None\<close> is NaN) and the rectangle of the
  \<open>.canvas-container\<close> element (\<open>None\<close> when the element is missing).
\<close>

record canvas_state =
  scale :: real
  offsetX :: real
  offsetY :: real
  selectedPixel :: "(int \<times> int) option"

record dom_env =
  rect_left :: real
  rect_top :: real
  rect_width :: real
  rect_height :: real
  innerWidth :: real
  innerHeight :: real
  header_height_css :: "int option"
  sidebar_width_css :: "int option"
  container_rect :: "(real \<times> real) option"

text \<open>\<open>parseInt(...) || d\<close>: NaN and 0 are falsy, so both give the default.\<close>

definition parseInt_or :: "int option \<Rightarrow> real \<Rightarrow> real" where
  "parseInt_or p d = (case p of None \<Rightarrow> d | Some n \<Rightarrow> if n = 0 then d else real_of_int n)"

definition headerHeight :: "dom_env \<Rightarrow> real" where
  "headerHeight env = parseInt_or (header_height_css env) 60"

definition sidebarWidth :: "dom_env \<Rightarrow> real" where
  "sidebarWidth env = parseInt_or (sidebar_width_css env) 300"

definition availableWidth :: "dom_env \<Rightarrow> real" where
  "availableWidth env =
     (if innerWidth env > 768 then innerWidth env - sidebarWidth env else innerWidth env)"

definition availableHeight :: "dom_env \<Rightarrow> real" where
  "availableHeight env = innerHeight env - headerHeight env"

definition containerRect :: "dom_env \<Rightarrow> real \<times> real" where
  "containerRect env = (case container_rect env of None \<Rightarrow> (0, 0) | Some r \<Rightarrow> r)"

definition finalWidth :: "dom_env \<Rightarrow> real" where
  "finalWidth env =
     (if fst (containerRect env) > 0 then fst (containerRect env) else availableWidth env)"

definition finalHeight :: "dom_env \<Rightarrow> real" where
  "finalHeight env =
     (if snd (containerRect env) > 0 then snd (containerRect env) else availableHeight env)"

definition logicalCanvasWidth :: "config \<Rightarrow> real" where
  "logicalCanvasWidth cfg = CANVAS_WIDTH cfg * PIXEL_SIZE cfg"

definition logicalCanvasHeight :: "config \<Rightarrow> real" where
  "logicalCanvasHeight cfg = CANVAS_HEIGHT cfg * PIXEL_SIZE cfg"

section \<open>The offset clamp of the input controller\<close>

text \<open>
  \<open>updateDragPosition\<close>, \<open>handleTouchDrag\<close>, \<open>zoomAtPoint\<close> and \<open>moveCanvas\<close> each
  contain the same two \<open>if\<close> statements, one per axis. \<open>clampOffsetX lw s fw\<close> is the
  statement for the X axis with \<open>lw = logicalCanvasWidth\<close>, \<open>s\<close> the scale and
  \<open>fw = finalWidth\<close>; \<open>clampOffsetY\<close> is the one for the Y axis, which also uses the
  header height \<open>hh\<close>.
\<close>

definition clampOffsetX :: "real \<Rightarrow> real \<Rightarrow> real \<Rightarrow> real \<Rightarrow> real" where
  "clampOffsetX lw s fw newOffsetX =
     (if lw * s > fw then min 0 (max newOffsetX (fw - lw * s))
      else (let maxOffset = max 0 (fw - lw * s)
            in max (- maxOffset) (min newOffsetX maxOffset)))"

definition clampOffsetY :: "real \<Rightarrow> real \<Rightarrow> real \<Rightarrow> real \<Rightarrow> real \<Rightarrow> real" where
  "clampOffsetY lh s fh hh newOffsetY =
     (if lh * s > fh then min hh (max newOffsetY (fh - lh * s))
      else (let maxOffset = max 0 (fh - lh * s)
            in max (hh - maxOffset) (min newOffsetY (hh + maxOffset))))"

text \<open>The clamp as one function of (offset, scale, viewport), both axes.\<close>

definition clampOffsets :: "config \<Rightarrow> dom_env \<Rightarrow> real \<Rightarrow> real \<times> real \<Rightarrow> real \<times> real" where
  "clampOffsets cfg env s off =
     (clampOffsetX (logicalCanvasWidth cfg) s (finalWidth env) (fst off),
      clampOffsetY (logicalCanvasHeight cfg) s (finalHeight env) (headerHeight env) (snd off))"

text \<open>\<open>InputController.moveCanvas(deltaX, deltaY)\<close>: keyboard pan.\<close>

definition moveCanvas :: "config \<Rightarrow> dom_env \<Rightarrow> real \<Rightarrow> real \<Rightarrow> canvas_state \<Rightarrow> canvas_state" where
  "moveCanvas cfg env deltaX deltaY st =
     (let off = clampOffsets cfg env (scale st) (offsetX st + deltaX, offsetY st + deltaY)
      in st\<lparr> offsetX := fst off, offsetY := snd off \<rparr>)"

text \<open>
  \<open>InputController.updateDragPosition(event)\<close> while a drag is active: \<open>dragStart\<close>
  is (pointer x, pointer y, offsetX, offsetY) at the start of the drag, and
  \<open>dragSensitivity\<close> is 1.
\<close>

definition updateDragPosition ::
  "config \<Rightarrow> dom_env \<Rightarrow> (real \<times> real \<times> real \<times> real) \<Rightarrow> real \<times> real \<Rightarrow> canvas_state \<Rightarrow> canvas_state" where
  "updateDragPosition cfg env dragStart client st =
     (case dragStart of (dx, dy, dox, doy) \<Rightarrow>
        (let deltaX = (fst client - dx) * 1;
             deltaY = (snd client - dy) * 1;
             off = clampOffsets cfg env (scale st) (dox + deltaX, doy + deltaY)
         in st\<lparr> offsetX := fst off, offsetY := snd off \<rparr>))"

text \<open>
  \<open>InputController.handleTouchDrag(touch)\<close>: the first call of a gesture only records
  \<open>dragStart\<close>; later calls pan from it. The result is the new \<open>dragStart\<close> and the
  new canvas state.
\<close>

definition handleTouchDrag ::
  "config \<Rightarrow> dom_env \<Rightarrow> (real \<times> real \<times> real \<times> real) option \<Rightarrow> real \<times> real \<Rightarrow> canvas_state
     \<Rightarrow> (real \<times> real \<times> real \<times> real) option \<times> canvas_state" where
  "handleTouchDrag cfg env dragStart client st =
     (case dragStart of
        Some (dx, dy, dox, doy) \<Rightarrow>
          (let deltaX = fst client - dx;
               deltaY = snd client - dy;
               off = clampOffsets cfg env (scale st) (dox + deltaX, doy + deltaY)
           in (dragStart, st\<lparr> offsetX := fst off, offsetY := snd off \<rparr>))
      | None \<Rightarrow> (Some (fst client, snd client, offsetX st, offsetY st), st))"

text \<open>
  \<open>InputController.centerCanvas()\<close>: the double-click and "center" action.
\<close>

definition centerCanvas :: "config \<Rightarrow> dom_env \<Rightarrow> canvas_state \<Rightarrow> canvas_state" where
  "centerCanvas cfg env st =
     (let s = scale st;
          lw = logicalCanvasWidth cfg;
          lh = logicalCanvasHeight cfg;
          fw = finalWidth env;
          fh = finalHeight env;
          hh = headerHeight env;
          newOffsetX = (if lw * s > fw then 0
                        else (let maxOffset = max 0 (fw - lw * s)
                              in max (- maxOffset) (min ((fw - lw * s) / 2) maxOffset)));
          newOffsetY = (if lh * s > fh then hh
                        else (let maxOffset = max 0 (fh - lh * s)
                              in max (hh - maxOffset) (min ((fh - lh * s) / 2) (hh + maxOffset))))
      in st\<lparr> offsetX := newOffsetX, offsetY := newOffsetY \<rparr>)"

section \<open>Zoom\<close>

text \<open>
  \<open>InputController.zoomAtPoint(screenPoint, zoomFactor)\<close>. The two divisions are by the
  current scale. The program never writes 0 to \<open>canvas.scale\<close> (it writes 1 or a value
  of at least 0.1), so the result \<open>None\<close>, which stands for the non-finite numbers a
  zero scale would give, is not reachable.
\<close>

definition zoomAtPoint ::
  "config \<Rightarrow> dom_env \<Rightarrow> real \<times> real \<Rightarrow> real \<Rightarrow> canvas_state \<Rightarrow> canvas_state option" where
  "zoomAtPoint cfg env screenPoint zoomFactor st =
     (let newScale = max (1/10) (min 20 (scale st * zoomFactor))
      in if newScale \<noteq> scale st then
           (case (js_div (fst screenPoint - offsetX st) (scale st),
                  js_div (snd screenPoint - offsetY st) (scale st)) of
              (Some mouseCanvasX, Some mouseCanvasY) \<Rightarrow>
                (let newOffsetX = fst screenPoint - mouseCanvasX * newScale;
                     newOffsetY = snd screenPoint - mouseCanvasY * newScale;
                     off = clampOffsets cfg env newScale (newOffsetX, newOffsetY)
                 in Some (st\<lparr> scale := newScale, offsetX := fst off, offsetY := snd off \<rparr>))
            | _ \<Rightarrow> None)
         else Some st)"

text \<open>\<open>InputController.zoomAtCenter(factor)\<close>: the keyboard zoom steps (1.2 and 0.8).\<close>

definition zoomAtCenter :: "config \<Rightarrow> dom_env \<Rightarrow> real \<Rightarrow> canvas_state \<Rightarrow> canvas_state option" where
  "zoomAtCenter cfg env factor st =
     zoomAtPoint cfg env (rect_width env / 2, rect_height env / 2) factor st"

text \<open>
  \<open>InputController.handleWheel(event)\<close> with \<open>zoomSensitivity = 0.1\<close>;
  \<open>Math.sign\<close> is \<open>sgn\<close>.
\<close>

definition InputController_handleWheel ::
  "config \<Rightarrow> dom_env \<Rightarrow> real \<times> real \<Rightarrow> real \<Rightarrow> canvas_state \<Rightarrow> canvas_state option" where
  "InputController_handleWheel cfg env client deltaY st =
     (let delta = - sgn deltaY;
          zoomFactor = 1 + (1/10) * delta
      in zoomAtPoint cfg env client zoomFactor st)"

text \<open>
  The legacy \<open>PixelCanvas.handleWheel(event)\<close> of canvas.js: the step is taken only
  when the new scale is inside the configured bounds, and the offset is not clamped.
\<close>

definition PixelCanvas_handleWheel ::
  "config \<Rightarrow> real \<times> real \<Rightarrow> real \<Rightarrow> canvas_state \<Rightarrow> canvas_state option" where
  "PixelCanvas_handleWheel cfg client deltaY st =
     (let delta = - sgn deltaY;
          zoom = 11/10;
          newScale = (if delta > 0 then scale st * zoom else scale st / zoom)
      in if newScale \<ge> MIN_SCALE cfg \<and> newScale \<le> MAX_SCALE cfg then
           (case (js_div (fst client - offsetX st) (scale st),
                  js_div (snd client - offsetY st) (scale st),
                  js_div (fst client - offsetX st) newScale,
                  js_div (snd client - offsetY st) newScale) of
              (Some oldWorldX, Some oldWorldY, Some newWorldX, Some newWorldY) \<Rightarrow>
                Some (st\<lparr> scale := newScale,
                          offsetX := offsetX st + (newWorldX - oldWorldX) * newScale,
                          offsetY := offsetY st + (newWorldY - oldWorldY) * newScale \<rparr>)
            | _ \<Rightarrow> None)
         else Some st)"

section \<open>Screen to grid, and selection\<close>

text \<open>
  \<open>InputController.isValidCanvasPosition\<close> and \<open>InputController.screenToCanvas\<close>.
  A zero divisor gives an infinity or NaN in JavaScript; \<open>Math.floor\<close> keeps it, every
  comparison of the validity check is then false, and the method returns \<open>null\<close>.
\<close>

definition isValidCanvasPosition :: "config \<Rightarrow> int \<times> int \<Rightarrow> bool" where
  "isValidCanvasPosition cfg pos =
     (fst pos \<ge> 0 \<and> real_of_int (fst pos) < CANVAS_WIDTH cfg \<and>
      snd pos \<ge> 0 \<and> real_of_int (snd pos) < CANVAS_HEIGHT cfg)"

definition InputController_screenToCanvas ::
  "config \<Rightarrow> dom_env \<Rightarrow> real \<Rightarrow> real \<Rightarrow> canvas_state \<Rightarrow> (int \<times> int) option" where
  "InputController_screenToCanvas cfg env screenX screenY st =
     (case (js_div (screenX - rect_left env - offsetX st) (PIXEL_SIZE cfg * scale st),
            js_div (screenY - rect_top env - offsetY st) (PIXEL_SIZE cfg * scale st)) of
        (Some qx, Some qy) \<Rightarrow>
          (let x = \<lfloor>qx\<rfloor>; y = \<lfloor>qy\<rfloor>
           in if isValidCanvasPosition cfg (x, y) then Some (x, y) else None)
      | _ \<Rightarrow> None)"

definition handlePixelSelection :: "config \<Rightarrow> int \<times> int \<Rightarrow> canvas_state \<Rightarrow> canvas_state" where
  "handlePixelSelection cfg canvasPos st =
     (if isValidCanvasPosition cfg canvasPos then st\<lparr> selectedPixel := Some canvasPos \<rparr> else st)"

text \<open>
  \<open>InputController.handleMouseDown\<close> for the left button (\<open>event.button === 0\<close>) and
  \<open>handleDoubleClick\<close>: \<open>doubleClick\<close> tells whether the double-click timer is
  pending; the result is the new flag and the new canvas state. \<open>handleTouchStart\<close>
  with one touch makes the same selection (and starts the long-press timer, which writes
  nothing to the canvas state).
\<close>

definition handleDoubleClick :: "config \<Rightarrow> dom_env \<Rightarrow> bool \<Rightarrow> canvas_state \<Rightarrow> bool \<times> canvas_state" where
  "handleDoubleClick cfg env doubleClick st =
     (if doubleClick then (False, centerCanvas cfg env st) else (True, st))"

definition handleMouseDown ::
  "config \<Rightarrow> dom_env \<Rightarrow> real \<Rightarrow> real \<Rightarrow> bool \<Rightarrow> canvas_state \<Rightarrow> bool \<times> canvas_state" where
  "handleMouseDown cfg env clientX clientY doubleClick st =
     (case InputController_screenToCanvas cfg env clientX clientY st of
        Some canvasPos \<Rightarrow> handleDoubleClick cfg env doubleClick (handlePixelSelection cfg canvasPos st)
      | None \<Rightarrow> (doubleClick, st))"

definition handleTouchStart :: "config \<Rightarrow> dom_env \<Rightarrow> real \<Rightarrow> real \<Rightarrow> canvas_state \<Rightarrow> canvas_state" where
  "handleTouchStart cfg env clientX clientY st =
     (case InputController_screenToCanvas cfg env clientX clientY st of
        Some canvasPos \<Rightarrow> handlePixelSelection cfg canvasPos st
      | None \<Rightarrow> st)"

text \<open>
  The legacy \<open>PixelCanvas\<close> of canvas.js: \<open>screenToCanvas\<close> does not look at the
  canvas rectangle, and \<open>isValidPosition\<close> bounds the cell by
  \<open>CANVAS_WIDTH / PIXEL_SIZE\<close> and \<open>CANVAS_HEIGHT / PIXEL_SIZE\<close>. \<open>isValidPosition\<close>
  is only called on a finite position, that is with \<open>PIXEL_SIZE\<close> not 0.
\<close>

definition PixelCanvas_screenToCanvas ::
  "config \<Rightarrow> real \<Rightarrow> real \<Rightarrow> canvas_state \<Rightarrow> (int \<times> int) option" where
  "PixelCanvas_screenToCanvas cfg screenX screenY st =
     (case (js_div (screenX - offsetX st) (PIXEL_SIZE cfg * scale st),
            js_div (screenY - offsetY st) (PIXEL_SIZE cfg * scale st)) of
        (Some qx, Some qy) \<Rightarrow> Some (\<lfloor>qx\<rfloor>, \<lfloor>qy\<rfloor>)
      | _ \<Rightarrow> None)"

definition isValidPosition :: "config \<Rightarrow> int \<Rightarrow> int \<Rightarrow> bool" where
  "isValidPosition cfg x y =
     (x \<ge> 0 \<and> real_of_int x < CANVAS_WIDTH cfg / PIXEL_SIZE cfg \<and>
      y \<ge> 0 \<and> real_of_int y < CANVAS_HEIGHT cfg / PIXEL_SIZE cfg)"

text \<open>\<open>PixelCanvas.handleMouseDown\<close> for a button other than the right one.\<close>

definition PixelCanvas_handleMouseDown ::
  "config \<Rightarrow> real \<Rightarrow> real \<Rightarrow> canvas_state \<Rightarrow> canvas_state" where
  "PixelCanvas_handleMouseDown cfg clientX clientY st =
     (case PixelCanvas_screenToCanvas cfg clientX clientY st of
        Some (x, y) \<Rightarrow> (if isValidPosition cfg x y then st\<lparr> selectedPixel := Some (x, y) \<rparr> else st)
      | None \<Rightarrow> st)"

section \<open>The state store (StateManager.js)\<close>

text \<open>
  The store is a tree of plain objects addressed by dotted paths. \<open>jsval\<close> has the
  primitives and plain objects (an association list, in insertion order). The
  \<open>Map\<close> at \<open>canvas.pixels\<close> and the array at \<open>ui.notifications\<close> are \<open>JOpaque\<close>:
  built-in objects whose own properties the model does not look into. Prototype
  properties (\<open>toString\<close>, \<open>length\<close>, ...) are not modelled either.
\<close>

datatype jsval =
    JUndefined
  | JNull
  | JNaN
  | JBool bool
  | JNum real
  | JStr string
  | JOpaque string
  | JObj "(string \<times> jsval) list"

datatype js_error = TypeError | MiddlewareError | Unmodelled

text \<open>\<open>path.split('.')\<close> and \<open>parts.join('.')\<close>.\<close>

fun split_dot :: "string \<Rightarrow> string list" where
  "split_dot [] = [[]]"
| "split_dot (c # cs) =
     (if c = CHR ''.'' then [] # split_dot cs
      else (case split_dot cs of p # ps \<Rightarrow> (c # p) # ps | [] \<Rightarrow> [[c]]))"

fun join_dot :: "string list \<Rightarrow> string" where
  "join_dot [] = []"
| "join_dot [p] = p"
| "join_dot (p # q # ps) = p @ ''.'' @ join_dot (q # ps)"

text \<open>
  \<open>current?.[key]\<close>, the step of \<open>_getNestedValue\<close>: \<open>undefined\<close> on \<open>null\<close> and
  \<open>undefined\<close>, and a missing property is \<open>undefined\<close>.
\<close>

fun getProp :: "jsval \<Rightarrow> string \<Rightarrow> jsval" where
  "getProp (JObj kvs) key = (case map_of kvs key of Some v \<Rightarrow> v | None \<Rightarrow> JUndefined)"
| "getProp _ key = JUndefined"

definition getNestedValue :: "jsval \<Rightarrow> string \<Rightarrow> jsval" where
  "getNestedValue obj path = foldl getProp obj (split_dot path)"

text \<open>
  \<open>_setNestedValue\<close>: \<open>setNested current keys lastKey value\<close> walks \<open>keys\<close> (the path
  without its last part), creating \<open>{}\<close> for a missing key, and assigns \<open>lastKey\<close> on the
  object it reaches. The method is class code, hence strict: the \<open>in\<close> operator and the
  assignment both throw a TypeError on a primitive, on \<open>null\<close> and on \<open>undefined\<close>. On
  a built-in object JavaScript would add a property; the model answers \<open>Unmodelled\<close>.
  A throw happens before anything is written.
\<close>

fun setNested :: "jsval \<Rightarrow> string list \<Rightarrow> string \<Rightarrow> jsval \<Rightarrow> js_error + jsval" where
  "setNested (JObj kvs) [] lastKey v = Inr (JObj (AList.update lastKey v kvs))"
| "setNested (JObj kvs) (key # keys) lastKey v =
     (case setNested (case map_of kvs key of Some c \<Rightarrow> c | None \<Rightarrow> JObj []) keys lastKey v of
        Inl e \<Rightarrow> Inl e
      | Inr c' \<Rightarrow> Inr (JObj (AList.update key c' kvs)))"
| "setNested (JOpaque b) keys lastKey v = Inl Unmodelled"
| "setNested _ keys lastKey v = Inl TypeError"

definition setNestedValue :: "jsval \<Rightarrow> string \<Rightarrow> jsval \<Rightarrow> js_error + jsval" where
  "setNestedValue obj path v =
     (let keys = split_dot path in setNested obj (butlast keys) (last keys) v)"

text \<open>
  A subscriber is a JavaScript function. The model gives it an identity and says, for
  each call, whether it throws; it is an observer: it does not write to the store or
  change the subscriptions while it runs. Every invocation is logged in \<open>calls\<close>,
  oldest first, with its three arguments, the store state at that moment (what the
  callback reads through \<open>appState.get\<close>) and whether it threw. \<open>console\<close> is what the
  catch blocks print. A middleware is a function that may throw (\<open>True\<close>).
\<close>

datatype callback = Callback (cb_id: nat) (cb_throws: "jsval \<Rightarrow> jsval \<Rightarrow> string \<Rightarrow> bool")

record notification_call =
  call_id :: nat
  call_value :: jsval
  call_old :: jsval
  call_path :: string
  call_state :: jsval
  call_threw :: bool

record store =
  state :: jsval
  subscribers :: "(string \<times> callback list) list"
  middleware :: "(string \<Rightarrow> jsval \<Rightarrow> jsval \<Rightarrow> bool) list"
  calls :: "notification_call list"
  console :: "string list"

definition get :: "store \<Rightarrow> string \<Rightarrow> jsval" where
  "get st path = getNestedValue (state st) path"

definition subscribersOf :: "store \<Rightarrow> string \<Rightarrow> callback list" where
  "subscribersOf st path = (case map_of (subscribers st) path of Some cbs \<Rightarrow> cbs | None \<Rightarrow> [])"

text \<open>\<open>subscribe(path, callback)\<close>: the callbacks of a path are a \<open>Set\<close>.\<close>

definition subscribe :: "string \<Rightarrow> callback \<Rightarrow> store \<Rightarrow> store" where
  "subscribe path cb st =
     (let cbs = subscribersOf st path
      in st\<lparr> subscribers :=
           AList.update path (if cb_id cb \<in> cb_id ` set cbs then cbs else cbs @ [cb])
             (subscribers st) \<rparr>)"

text \<open>
  One pass of a \<open>forEach\<close> body: \<open>try { callback(value, oldValue, path) } catch (error)
  { console.error(msg, error) }\<close>.
\<close>

definition invoke :: "string \<Rightarrow> jsval \<Rightarrow> jsval \<Rightarrow> string \<Rightarrow> callback \<Rightarrow> store \<Rightarrow> store" where
  "invoke msg v oldValue path cb st =
     (let threw = cb_throws cb v oldValue path;
          st1 = st\<lparr> calls := calls st @
                  [\<lparr> call_id = cb_id cb, call_value = v, call_old = oldValue, call_path = path,
                     call_state = state st, call_threw = threw \<rparr>] \<rparr>
      in if threw then st1\<lparr> console := console st1 @ [msg] \<rparr> else st1)"

text \<open>
  \<open>_notifySubscribers\<close>: the exact subscribers, then the loop
  \<open>for (let i = pathParts.length - 1; i > 0; i--)\<close> over the parent paths.
\<close>

fun notifyParents :: "string list \<Rightarrow> nat \<Rightarrow> store \<Rightarrow> store" where
  "notifyParents pathParts 0 st = st"
| "notifyParents pathParts (Suc i) st =
     (let parentPath = join_dot (take (Suc i) pathParts);
          parentValue = get st parentPath
      in notifyParents pathParts i
           (fold (invoke ''Error in parent state subscriber:'' parentValue JNull parentPath)
              (subscribersOf st parentPath) st))"

definition notifySubscribers :: "string \<Rightarrow> jsval \<Rightarrow> jsval \<Rightarrow> store \<Rightarrow> store" where
  "notifySubscribers path v oldValue st =
     (let st1 = fold (invoke ''Error in state subscriber:'' v oldValue path) (subscribersOf st path) st;
          pathParts = split_dot path
      in notifyParents pathParts (length pathParts - 1) st1)"

text \<open>
  \<open>set(path, value)\<close>. An exception leaves the method with the store as it is at the
  throw: \<open>Inl (e, st)\<close>. The middleware calls are not inside a \<open>try\<close>.
\<close>

definition set_path :: "string \<Rightarrow> jsval \<Rightarrow> store \<Rightarrow> (js_error \<times> store) + store" where
  "set_path path v st =
     (let oldValue = get st path
      in case setNestedValue (state st) path v of
           Inl e \<Rightarrow> Inl (e, st)
         | Inr s' \<Rightarrow>
             (let st1 = st\<lparr> state := s' \<rparr>
              in if list_ex (\<lambda>m. m path v oldValue) (middleware st1)
                 then Inl (MiddlewareError, st1)
                 else Inr (notifySubscribers path v oldValue st1)))"

text \<open>
  \<open>batchUpdate(updates)\<close>: three loops. \<open>writeAll\<close> is the first one and returns the
  \<open>changes\<close> array; \<open>updates\<close> is \<open>Object.entries(updates)\<close>.
\<close>

fun writeAll :: "(string \<times> jsval) list \<Rightarrow> store
    \<Rightarrow> (js_error \<times> store) + (store \<times> (string \<times> jsval \<times> jsval) list)" where
  "writeAll [] st = Inr (st, [])"
| "writeAll ((path, v) # rest) st =
     (let oldValue = get st path
      in case setNestedValue (state st) path v of
           Inl e \<Rightarrow> Inl (e, st)
         | Inr s' \<Rightarrow>
             (case writeAll rest (st\<lparr> state := s' \<rparr>) of
                Inl e \<Rightarrow> Inl e
              | Inr (st2, changes) \<Rightarrow> Inr (st2, (path, v, oldValue) # changes)))"

definition batchUpdate :: "(string \<times> jsval) list \<Rightarrow> store \<Rightarrow> (js_error \<times> store) + store" where
  "batchUpdate updates st =
     (case writeAll updates st of
        Inl e \<Rightarrow> Inl e
      | Inr (st1, changes) \<Rightarrow>
          if list_ex (\<lambda>(path, v, oldValue). list_ex (\<lambda>m. m path v oldValue) (middleware st1)) changes
          then Inl (MiddlewareError, st1)
          else Inr (fold (\<lambda>(path, v, oldValue). notifySubscribers path v oldValue) changes st1))"

text \<open>The state built by the constructor of \<open>StateManager\<close>.\<close>

definition initial_state :: jsval where
  "initial_state = JObj
     [(''canvas'', JObj [(''scale'', JNum 1), (''offsetX'', JNum 0), (''offsetY'', JNum 0),
                         (''selectedPixel'', JNull), (''pixels'', JOpaque ''Map''),
                         (''isDragging'', JBool False)]),
      (''user'', JObj [(''selectedColor'', JStr ''#000000''), (''cooldownTime'', JNum 0),
                       (''isCooldown'', JBool False), (''clientId'', JNull)]),
      (''connection'', JObj [(''isConnected'', JBool False), (''reconnectAttempts'', JNum 0),
                             (''lastPing'', JNull), (''onlineUsers'', JNum 0)]),
      (''ui'', JObj [(''cursorPosition'', JNull), (''selectedTool'', JStr ''pixel''),
                     (''notifications'', JOpaque ''Array'')]),
      (''performance'', JObj [(''fps'', JNum 0), (''renderTime'', JNum 0),
                              (''pixelsRendered'', JNum 0), (''memoryUsage'', JNum 0)])]"

definition new_StateManager :: store where
  "new_StateManager = \<lparr> state = initial_state, subscribers = [], middleware = [], calls = [],
     console = [] \<rparr>"

section \<open>Cooldown (app.js)\<close>

text \<open>
  The subscriptions \<open>setupStateEvents\<close> makes, in its order; a callback is numbered by
  the line of app.js that registers it. None of them throws.
\<close>

definition quiet :: "nat \<Rightarrow> callback" where
  "quiet n = Callback n (\<lambda>v oldValue path. False)"

definition setupStateEvents :: "store \<Rightarrow> store" where
  "setupStateEvents st =
     fold (\<lambda>(path, n). subscribe path (quiet n))
       [(''canvas.selectedPixel'', 604), (''user.cooldownTime'', 611),
        (''canvas.selectedPixel'', 616), (''connection.onlineUsers'', 632),
        (''user.selectedColor'', 639), (''user.isCooldown'', 648),
        (''canvas.selectedPixel'', 654), (''connection.isConnected'', 660),
        (''ui.cursorPosition'', 665)] st"

text \<open>
  \<open>value - 1\<close> and \<open>value <= 0\<close> on a store value. Strings and built-in objects
  are not converted (the program only writes numbers to \<open>user.cooldownTime\<close>): they
  count as NaN.
\<close>

fun js_minus_one :: "jsval \<Rightarrow> jsval" where
  "js_minus_one (JNum n) = JNum (n - 1)"
| "js_minus_one JNull = JNum (- 1)"
| "js_minus_one (JBool b) = JNum (if b then 0 else - 1)"
| "js_minus_one _ = JNaN"

fun js_le_zero :: "jsval \<Rightarrow> bool" where
  "js_le_zero (JNum n) = (n \<le> 0)"
| "js_le_zero _ = False"

text \<open>
  The application keeps the store and the interval timer of the countdown
  (\<open>cooldownInterval\<close>: whether it is running).
\<close>

record app =
  appState :: store
  cooldownInterval :: bool

definition endCooldown :: "app \<Rightarrow> (js_error \<times> app) + app" where
  "endCooldown a =
     (case batchUpdate [(''user.isCooldown'', JBool False), (''user.cooldownTime'', JNum 0)]
             (appState a) of
        Inl (e, st) \<Rightarrow> Inl (e, a\<lparr> appState := st \<rparr>)
      | Inr st \<Rightarrow> Inr (a\<lparr> appState := st \<rparr>))"

definition startCooldown :: "config \<Rightarrow> app \<Rightarrow> (js_error \<times> app) + app" where
  "startCooldown cfg a =
     (let cooldownTime = COOLDOWN_TIME cfg
      in case batchUpdate [(''user.isCooldown'', JBool True), (''user.cooldownTime'', JNum cooldownTime)]
                (appState a) of
           Inl (e, st) \<Rightarrow> Inl (e, a\<lparr> appState := st \<rparr>)
         | Inr st \<Rightarrow> Inr (a\<lparr> appState := st, cooldownInterval := True \<rparr>))"

text \<open>The body of the \<open>setInterval\<close> callback of \<open>startCooldown\<close>: one tick.\<close>

definition cooldownTick :: "app \<Rightarrow> (js_error \<times> app) + app" where
  "cooldownTick a =
     (let currentTime = js_minus_one (get (appState a) ''user.cooldownTime'')
      in case set_path ''user.cooldownTime'' currentTime (appState a) of
           Inl (e, st) \<Rightarrow> Inl (e, a\<lparr> appState := st \<rparr>)
         | Inr st \<Rightarrow>
             (if js_le_zero currentTime
              then endCooldown (a\<lparr> appState := st, cooldownInterval := False \<rparr>)
              else Inr (a\<lparr> appState := st \<rparr>)))"

text \<open>\<open>n\<close> ticks in a row, stopping at the first exception.\<close>

fun cooldownTicks :: "nat \<Rightarrow> app \<Rightarrow> (js_error \<times> app) + app" where
  "cooldownTicks 0 a = Inr a"
| "cooldownTicks (Suc n) a =
     (case cooldownTick a of Inl e \<Rightarrow> Inl e | Inr a' \<Rightarrow> cooldownTicks n a')"

section \<open>The session manager (WebSocketManager.js)\<close>

record ws_config =
  maxReconnectAttempts :: nat
  reconnectInterval :: real
  maxReconnectInterval :: real
  heartbeatInterval :: real
  connectionTimeout :: real

definition default_ws_config :: ws_config where
  "default_ws_config = \<lparr> maxReconnectAttempts = 10, reconnectInterval = 1000,
     maxReconnectInterval = 30000, heartbeatInterval = 30000, connectionTimeout = 10000 \<rparr>"

datatype ready_state = CONNECTING | OPEN | CLOSING | CLOSED

text \<open>The two messages the client sends, and one cell of a pixel list.\<close>

datatype client_message =
    PixelUpdate int int string
  | Ping real

datatype pixel = Pixel (pixel_x: int) (pixel_y: int) (pixel_color: string)

text \<open>
  A parsed server message is an object; a field that is absent reads as
  \<open>undefined\<close>, which is \<open>None\<close> here. \<open>msg_updates\<close> and \<open>msg_pixels\<close> are
  \<open>Some\<close> exactly when the field holds an array.
\<close>

record server_message =
  msg_type :: string
  msg_x :: "int option"
  msg_y :: "int option"
  msg_color :: "string option"
  msg_updates :: "pixel list option"
  msg_pixels :: "pixel list option"
  msg_online_users :: "int option"
  msg_count :: "int option"
  msg_timestamp :: "real option"
  msg_message :: "string option"

record notification =
  note_id :: real
  note_type :: string
  note_message :: "string option"
  note_persistent :: bool
  note_duration :: "real option"

text \<open>
  The key of the pixel map is the string \<open>`${x},${y}`\<close>. The model keeps the two
  interpolated values instead of the string (\<open>None\<close> prints as \<open>undefined\<close>); the
  interpolation is injective on them. A stored colour may be \<open>undefined\<close> as well.
\<close>

type_synonym pixel_key = "int option \<times> int option"
type_synonym pixel_map = "pixel_key \<rightharpoonup> string option"

text \<open>
  The manager's own fields, the transport and the part of the store it writes
  (\<open>connection.*\<close>, \<open>ui.notifications\<close>, \<open>canvas.pixels\<close>; these store writes are
  field updates here, their notifications are not part of this model).
  \<open>ws\<close> is \<open>None\<close> for \<open>null\<close> and otherwise the socket's \<open>readyState\<close>.
  \<open>reconnectTimers\<close> holds the delay of every pending \<open>setTimeout\<close> of
  \<open>scheduleReconnect\<close>. The transport: \<open>attempted\<close> lists every message handed to
  \<open>ws.send\<close>, \<open>wire\<close> those it accepted, and \<open>sendThrows k\<close> tells whether the call
  number \<open>k\<close> of \<open>ws.send\<close> throws.
\<close>

record ws_manager =
  wsconfig :: ws_config
  ws :: "ready_state option"
  isConnecting :: bool
  reconnectAttempts :: nat
  heartbeatTimer :: bool
  connectionTimer :: bool
  messageQueue :: "client_message list"
  reconnectTimers :: "real list"
  attempted :: "client_message list"
  wire :: "client_message list"
  sendThrows :: "nat \<Rightarrow> bool"
  connection_isConnected :: bool
  connection_reconnectAttempts :: nat
  connection_lastPing :: "real option"
  connection_onlineUsers :: "int option"
  ui_notifications :: "notification list"
  canvas_pixels :: pixel_map

definition new_WebSocketManager :: "(nat \<Rightarrow> bool) \<Rightarrow> ws_manager" where
  "new_WebSocketManager throws = \<lparr> wsconfig = default_ws_config, ws = None, isConnecting = False,
     reconnectAttempts = 0, heartbeatTimer = False, connectionTimer = False, messageQueue = [],
     reconnectTimers = [], attempted = [], wire = [], sendThrows = throws,
     connection_isConnected = False, connection_reconnectAttempts = 0,
     connection_lastPing = None, connection_onlineUsers = Some 0, ui_notifications = [],
     canvas_pixels = Map.empty \<rparr>"

text \<open>
  \<open>send(message, queueIfDisconnected)\<close>: the result is the returned boolean and the
  new manager. \<open>JSON.stringify\<close> of a protocol message does not throw, and the frame is
  recorded as the message it serialises.
\<close>

definition send :: "client_message \<Rightarrow> bool \<Rightarrow> ws_manager \<Rightarrow> bool \<times> ws_manager" where
  "send message queueIfDisconnected m =
     (if ws m = Some OPEN then
        (if sendThrows m (length (attempted m)) then
           (False, m\<lparr> attempted := attempted m @ [message],
                      messageQueue := (if queueIfDisconnected then messageQueue m @ [message]
                                       else messageQueue m) \<rparr>)
         else (True, m\<lparr> attempted := attempted m @ [message], wire := wire m @ [message] \<rparr>))
      else
        (False, if queueIfDisconnected then m\<lparr> messageQueue := messageQueue m @ [message] \<rparr>
                else m))"

definition flushMessageQueue :: "ws_manager \<Rightarrow> ws_manager" where
  "flushMessageQueue m =
     (if messageQueue m = [] then m
      else (let messages = messageQueue m
            in fold (\<lambda>message s. snd (send message False s)) messages
                 (m\<lparr> messageQueue := [] \<rparr>)))"

definition clearTimers :: "ws_manager \<Rightarrow> ws_manager" where
  "clearTimers m = m\<lparr> heartbeatTimer := False, connectionTimer := False \<rparr>"

definition startHeartbeat :: "ws_manager \<Rightarrow> ws_manager" where
  "startHeartbeat m = m\<lparr> heartbeatTimer := True \<rparr>"

text \<open>
  The text of the give-up notification is Russian in the source; this is its
  translation.
\<close>

definition RECONNECT_FAILED :: string where
  "RECONNECT_FAILED = ''Could not connect to the server. Try reloading the page.''"

text \<open>
  The constant \<open>baseDelay\<close> of \<open>scheduleReconnect\<close>, as a function of the incremented
  counter, which is at least 1 there.
\<close>

definition baseDelay :: "ws_config \<Rightarrow> nat \<Rightarrow> real" where
  "baseDelay cfg attempts =
     min (reconnectInterval cfg * 2 ^ (attempts - 1)) (maxReconnectInterval cfg)"

text \<open>
  \<open>scheduleReconnect()\<close>: \<open>now\<close> is \<open>Date.now()\<close> and \<open>rand\<close> is what
  \<open>Math.random()\<close> returns (a number from 0 up to, not including, 1).
\<close>

definition scheduleReconnect :: "real \<Rightarrow> real \<Rightarrow> ws_manager \<Rightarrow> ws_manager" where
  "scheduleReconnect now rand m =
     (if reconnectAttempts m \<ge> maxReconnectAttempts (wsconfig m) then
        m\<lparr> ui_notifications := ui_notifications m @
             [\<lparr> note_id = now, note_type = ''error'', note_message = Some RECONNECT_FAILED,
                note_persistent = True, note_duration = None \<rparr>] \<rparr>
      else
        (let attempts = reconnectAttempts m + 1;
             base = baseDelay (wsconfig m) attempts;
             jitter = base * (1/10) * rand;
             delay = base + jitter
         in m\<lparr> reconnectAttempts := attempts, connection_reconnectAttempts := attempts,
               reconnectTimers := reconnectTimers m @ [delay] \<rparr>))"

text \<open>
  \<open>connect()\<close>: \<open>ctorThrows\<close> tells whether \<open>new WebSocket(url)\<close> throws, which
  the \<open>catch\<close> turns into a scheduled reconnect.
\<close>

definition connect :: "bool \<Rightarrow> real \<Rightarrow> real \<Rightarrow> ws_manager \<Rightarrow> ws_manager" where
  "connect ctorThrows now rand m =
     (if isConnecting m \<or> ws m = Some OPEN then m
      else (let m1 = m\<lparr> isConnecting := True, connection_isConnected := False \<rparr>
            in if ctorThrows then scheduleReconnect now rand (m1\<lparr> isConnecting := False \<rparr>)
               else m1\<lparr> ws := Some CONNECTING, connectionTimer := True \<rparr>))"

definition disconnect :: "ws_manager \<Rightarrow> ws_manager" where
  "disconnect m =
     (let m1 = clearTimers m;
          m2 = m1\<lparr> ws := None \<rparr>;
          m3 = m2\<lparr> connection_isConnected := False, connection_reconnectAttempts := 0 \<rparr>
      in m3\<lparr> reconnectAttempts := 0, isConnecting := False \<rparr>)"

definition handleOpen :: "real \<Rightarrow> ws_manager \<Rightarrow> ws_manager" where
  "handleOpen now m =
     (let m1 = m\<lparr> isConnecting := False, reconnectAttempts := 0 \<rparr>;
          m2 = clearTimers m1;
          m3 = m2\<lparr> connection_isConnected := True, connection_reconnectAttempts := 0,
                   connection_lastPing := Some now \<rparr>;
          m4 = flushMessageQueue m3
      in startHeartbeat m4)"

definition handleClose :: "nat \<Rightarrow> real \<Rightarrow> real \<Rightarrow> ws_manager \<Rightarrow> ws_manager" where
  "handleClose code now rand m =
     (let m1 = m\<lparr> isConnecting := False \<rparr>;
          m2 = clearTimers m1;
          m3 = m2\<lparr> connection_isConnected := False \<rparr>
      in if code \<noteq> 1000 then scheduleReconnect now rand m3 else m3)"

text \<open>
  The callback of the reconnect \<open>setTimeout\<close>: the pending timer number \<open>i\<close> fires.
\<close>

definition reconnectTimerFires :: "nat \<Rightarrow> bool \<Rightarrow> real \<Rightarrow> real \<Rightarrow> ws_manager \<Rightarrow> ws_manager" where
  "reconnectTimerFires i ctorThrows now rand m =
     (if i < length (reconnectTimers m) then
        (let m1 = m\<lparr> reconnectTimers := take i (reconnectTimers m) @ drop (Suc i) (reconnectTimers m) \<rparr>
         in if \<not> connection_isConnected m1 then connect ctorThrows now rand m1 else m1)
      else m)"

text \<open>The heartbeat interval callback and the connection-timeout callback.\<close>

definition heartbeat :: "real \<Rightarrow> ws_manager \<Rightarrow> ws_manager" where
  "heartbeat now m = (if ws m = Some OPEN then snd (send (Ping now) False m) else m)"

definition connectionTimeoutFires :: "ws_manager \<Rightarrow> ws_manager" where
  "connectionTimeoutFires m =
     (case ws m of Some CONNECTING \<Rightarrow> m\<lparr> ws := Some CLOSING \<rparr> | _ \<Rightarrow> m)"

section \<open>Incoming messages\<close>

text \<open>
  \<open>WebSocketManager.handlePixelUpdate(message)\<close> reads \<open>message.x\<close>, \<open>message.y\<close>
  and \<open>message.color\<close>, whatever else the message holds. (\<open>handlePixelUpdate\<close> of
  app.js, called next through the \<open>message:pixel_update\<close> event, is the same code;
  the handlers of the other emitted events repeat the manager's store writes or show a
  toast.)
\<close>

definition handlePixelUpdate :: "server_message \<Rightarrow> pixel_map \<Rightarrow> pixel_map" where
  "handlePixelUpdate message pixels = pixels((msg_x message, msg_y message) \<mapsto> msg_color message)"

text \<open>
  \<open>handleInitMessage\<close>: without a \<open>pixels\<close> array the method throws, and the
  \<open>catch\<close> of \<open>handleMessage\<close> logs the error: nothing is written.
\<close>

definition handleInitMessage :: "server_message \<Rightarrow> ws_manager \<Rightarrow> ws_manager" where
  "handleInitMessage message m =
     (case msg_pixels message of
        None \<Rightarrow> m
      | Some pixels \<Rightarrow>
          m\<lparr> canvas_pixels :=
                fold (\<lambda>p newPixels. newPixels((Some (pixel_x p), Some (pixel_y p)) \<mapsto> Some (pixel_color p)))
                  pixels Map.empty,
             connection_onlineUsers := msg_online_users message \<rparr>)"

definition handleServerError :: "real \<Rightarrow> server_message \<Rightarrow> ws_manager \<Rightarrow> ws_manager" where
  "handleServerError now message m =
     m\<lparr> ui_notifications := ui_notifications m @
          [\<lparr> note_id = now, note_type = ''error'',
             note_message = msg_message message,
             note_persistent = False, note_duration = Some 5000 \<rparr>] \<rparr>"

definition handleMessage :: "real \<Rightarrow> server_message \<Rightarrow> ws_manager \<Rightarrow> ws_manager" where
  "handleMessage now message m =
     (if msg_type message = ''init'' then handleInitMessage message m
      else if msg_type message = ''pixel_update''
        then m\<lparr> canvas_pixels := handlePixelUpdate message (canvas_pixels m) \<rparr>
      else if msg_type message = ''user_count''
        then m\<lparr> connection_onlineUsers := msg_count message \<rparr>
      else if msg_type message = ''pong'' then m\<lparr> connection_lastPing := Some now \<rparr>
      else if msg_type message = ''error'' then handleServerError now message m
      else m)"

text \<open>
  The legacy client: \<open>PixelCanvas.setPixel\<close> of canvas.js and the \<open>pixel_update\<close>
  case of \<open>ws.onmessage\<close> in websocket.js, which does look at \<open>message.updates\<close>.
\<close>

definition setPixel :: "int option \<Rightarrow> int option \<Rightarrow> string option \<Rightarrow> pixel_map \<Rightarrow> pixel_map" where
  "setPixel x y color pixels = pixels((x, y) \<mapsto> color)"

definition onmessage_pixel_update :: "server_message \<Rightarrow> pixel_map \<Rightarrow> pixel_map" where
  "onmessage_pixel_update message pixels =
     (case msg_updates message of
        Some updates \<Rightarrow>
          fold (\<lambda>update. setPixel (Some (pixel_x update)) (Some (pixel_y update))
                            (Some (pixel_color update))) updates pixels
      | None \<Rightarrow> setPixel (msg_x message) (msg_y message) (msg_color message) pixels)"

text \<open>The events the manager reacts to, and a run of them.\<close>

datatype ws_event =
    EvConnect bool real real
  | EvDisconnect
  | EvSend client_message bool
  | EvOpen real
  | EvClose nat real real
  | EvError
  | EvReconnectTimer nat bool real real
  | EvHeartbeat real
  | EvConnectionTimeout
  | EvMessage real server_message

fun handle :: "ws_event \<Rightarrow> ws_manager \<Rightarrow> ws_manager" where
  "handle (EvConnect ctorThrows now rand) m = connect ctorThrows now rand m"
| "handle EvDisconnect m = disconnect m"
| "handle (EvSend message q) m = snd (send message q m)"
| "handle (EvOpen now) m = handleOpen now (m\<lparr> ws := Some OPEN \<rparr>)"
| "handle (EvClose code now rand) m = handleClose code now rand (m\<lparr> ws := Some CLOSED \<rparr>)"
| "handle EvError m = m"
| "handle (EvReconnectTimer i ctorThrows now rand) m = reconnectTimerFires i ctorThrows now rand m"
| "handle (EvHeartbeat now) m = heartbeat now m"
| "handle EvConnectionTimeout m = connectionTimeoutFires m"
| "handle (EvMessage now message) m = handleMessage now message m"

definition run :: "ws_event list \<Rightarrow> ws_manager \<Rightarrow> ws_manager" where
  "run evs m = fold handle evs m"

section \<open>What the specification states, and concrete inputs\<close>

text \<open>
  The selection as the specification words it, for a non-zero cell size and scale: the
  grid cell under the screen point, valid inside the configured grid, otherwise no
  selection.
\<close>

definition claimed_selection :: "config \<Rightarrow> real \<Rightarrow> real \<Rightarrow> canvas_state \<Rightarrow> (int \<times> int) option" where
  "claimed_selection cfg sx sy st =
     (let gridX = \<lfloor>(sx - offsetX st) / (PIXEL_SIZE cfg * scale st)\<rfloor>;
          gridY = \<lfloor>(sy - offsetY st) / (PIXEL_SIZE cfg * scale st)\<rfloor>
      in if 0 \<le> gridX \<and> real_of_int gridX < CANVAS_WIDTH cfg \<and>
            0 \<le> gridY \<and> real_of_int gridY < CANVAS_HEIGHT cfg
         then Some (gridX, gridY) else None)"

text \<open>
  The new offset of a zoom about the screen coordinate \<open>p\<close> as the specification
  words it.
\<close>

definition claimed_zoom_offset :: "real \<Rightarrow> real \<Rightarrow> real \<Rightarrow> real \<Rightarrow> real" where
  "claimed_zoom_offset p off s newScale = p - (p - off) / s * newScale"

text \<open>
  A desktop window of 1100 by 660 pixels with the canvas element at the viewport origin,
  and the same page with the canvas element placed below a header of 60 pixels.
  \<open>scenario_state\<close> is the viewport that \<open>initializeCanvasState\<close> sets up (scale 1,
  offset (0, 60)); \<open>origin_state\<close> has offset (0, 0).
\<close>

definition desktop_env :: dom_env where
  "desktop_env = \<lparr> rect_left = 0, rect_top = 0, rect_width = 800, rect_height = 600,
     innerWidth = 1100, innerHeight = 660, header_height_css = Some 60,
     sidebar_width_css = Some 300, container_rect = Some (800, 600) \<rparr>"

definition header_env :: dom_env where
  "header_env = desktop_env\<lparr> rect_top := 60 \<rparr>"

definition scenario_state :: canvas_state where
  "scenario_state = \<lparr> scale = 1, offsetX = 0, offsetY = 60, selectedPixel = None \<rparr>"

definition origin_state :: canvas_state where
  "origin_state = \<lparr> scale = 1, offsetX = 0, offsetY = 0, selectedPixel = None \<rparr>"

section \<open>Notation for the notification log, and concrete stores\<close>

text \<open>
  \<open>entry\<close> is the log entry of one callback invocation. \<open>parentCalls st parts i\<close> are
  the entries of the subscribers of the parent path made of the first \<open>i\<close> parts.
  \<open>notified st path\<close> lists, in order, the callbacks a change of \<open>path\<close> has to reach:
  the subscribers of the path itself, then those of every parent path, nearest first.
\<close>

definition entry :: "jsval \<Rightarrow> jsval \<Rightarrow> string \<Rightarrow> jsval \<Rightarrow> callback \<Rightarrow> notification_call" where
  "entry v oldValue path s cb =
     \<lparr> call_id = cb_id cb, call_value = v, call_old = oldValue, call_path = path,
       call_state = s, call_threw = cb_throws cb v oldValue path \<rparr>"

definition parentCalls :: "store \<Rightarrow> string list \<Rightarrow> nat \<Rightarrow> notification_call list" where
  "parentCalls st pathParts i =
     map (entry (get st (join_dot (take i pathParts))) JNull (join_dot (take i pathParts)) (state st))
       (subscribersOf st (join_dot (take i pathParts)))"

definition notified :: "store \<Rightarrow> string \<Rightarrow> nat list" where
  "notified st path =
     map cb_id (subscribersOf st path) @
     concat (map (\<lambda>i. map cb_id (subscribersOf st (join_dot (take i (split_dot path)))))
               (rev [1..<length (split_dot path)]))"

text \<open>
  \<open>afterDecrement s\<close> is the state right after the tick wrote the decremented
  \<open>user.cooldownTime\<close> into \<open>s\<close>, before \<open>endCooldown\<close> runs.
\<close>

definition afterDecrement :: "jsval \<Rightarrow> jsval" where
  "afterDecrement s =
     (case setNestedValue s ''user.cooldownTime'' (js_minus_one (getNestedValue s ''user.cooldownTime'')) of
        Inr s' \<Rightarrow> s' | Inl e \<Rightarrow> s)"

text \<open>
  \<open>cooling_state t b\<close> is the constructor's state with \<open>user.cooldownTime = t\<close> and
  \<open>user.isCooldown = b\<close>. \<open>new_app\<close> is the application after \<open>setupStateEvents\<close>;
  \<open>last_second_app\<close> is the application with one second of cooldown left.
  \<open>noisy_store\<close> has a throwing and a quiet subscriber on \<open>user.cooldownTime\<close> and on
  its parent \<open>user\<close>.
\<close>

definition cooling_state :: "jsval \<Rightarrow> jsval \<Rightarrow> jsval" where
  "cooling_state t b = JObj
     [(''canvas'', JObj [(''scale'', JNum 1), (''offsetX'', JNum 0), (''offsetY'', JNum 0),
                         (''selectedPixel'', JNull), (''pixels'', JOpaque ''Map''),
                         (''isDragging'', JBool False)]),
      (''user'', JObj [(''selectedColor'', JStr ''#000000''), (''cooldownTime'', t),
                       (''isCooldown'', b), (''clientId'', JNull)]),
      (''connection'', JObj [(''isConnected'', JBool False), (''reconnectAttempts'', JNum 0),
                             (''lastPing'', JNull), (''onlineUsers'', JNum 0)]),
      (''ui'', JObj [(''cursorPosition'', JNull), (''selectedTool'', JStr ''pixel''),
                     (''notifications'', JOpaque ''Array'')]),
      (''performance'', JObj [(''fps'', JNum 0), (''renderTime'', JNum 0),
                              (''pixelsRendered'', JNum 0), (''memoryUsage'', JNum 0)])]"

definition new_app :: app where
  "new_app = \<lparr> appState = setupStateEvents new_StateManager, cooldownInterval = False \<rparr>"

definition last_second_app :: app where
  "last_second_app = \<lparr> appState = (setupStateEvents new_StateManager)\<lparr> state := cooling_state (JNum 1) (JBool True) \<rparr>,
                        cooldownInterval = True \<rparr>"

definition noisy_store :: store where
  "noisy_store = \<lparr> state = initial_state,
     subscribers = [(''user.cooldownTime'', [Callback 1 (\<lambda>v oldValue path. True), Callback 2 (\<lambda>v oldValue path. False)]),
                    (''user'', [Callback 3 (\<lambda>v oldValue path. True), Callback 4 (\<lambda>v oldValue path. False)])],
     middleware = [], calls = [], console = [] \<rparr>"

text \<open>
  The names every plain object inherits from \<open>Object.prototype\<close>. For a path part
  among them \<open>key in current\<close> holds without an own property and \<open>__proto__\<close> is an
  accessor, so such a path leaves what \<open>jsval\<close> describes; \<open>plain_path\<close> excludes them.
\<close>

definition Object_prototype_names :: "string list" where
  "Object_prototype_names =
     [''__proto__'', ''constructor'', ''hasOwnProperty'', ''isPrototypeOf'',
      ''propertyIsEnumerable'', ''toLocaleString'', ''toString'', ''valueOf'',
      ''__defineGetter__'', ''__defineSetter__'', ''__lookupGetter__'', ''__lookupSetter__'']"

definition plain_path :: "string \<Rightarrow> bool" where
  "plain_path path = list_all (\<lambda>key. key \<notin> set Object_prototype_names) (split_dot path)"

text \<open>
  Two paths are \<open>incomparable\<close> when neither addresses the other's value or a part of
  it: neither list of parts is a prefix of the other. The paths of a batch are
  \<open>independent\<close> when they are pairwise incomparable.
\<close>

definition incomparable :: "string \<Rightarrow> string \<Rightarrow> bool" where
  "incomparable p q =
     (\<not> prefix (split_dot p) (split_dot q) \<and> \<not> prefix (split_dot q) (split_dot p))"

fun independent :: "string list \<Rightarrow> bool" where
  "independent [] = True"
| "independent (p # ps) = (list_all (incomparable p) ps \<and> independent ps)"

text \<open>The state is an object whose \<open>user\<close> property is an object.\<close>

fun is_object :: "jsval \<Rightarrow> bool" where
  "is_object (JObj kvs) = True"
| "is_object _ = False"

definition has_user_object :: "jsval \<Rightarrow> bool" where
  "has_user_object s = (is_object s \<and> is_object (getProp s ''user''))"

section \<open>Notation for the transport and the reconnect cap, and concrete managers\<close>


text \<open>
  \<open>gave_up now\<close> is the notification \<open>scheduleReconnect\<close> adds when it gives up.
  \<open>closures cs\<close> handles a list of close events (code, \<open>Date.now()\<close>,
  \<open>Math.random()\<close>) in a row.
\<close>

definition gave_up :: "real \<Rightarrow> notification" where
  "gave_up now = \<lparr> note_id = now, note_type = ''error'', note_message = Some RECONNECT_FAILED,
                   note_persistent = True, note_duration = None \<rparr>"

fun closures :: "(nat \<times> real \<times> real) list \<Rightarrow> ws_manager \<Rightarrow> ws_manager" where
  "closures [] m = m"
| "closures ((code, now, rand) # cs) m = closures cs (handle (EvClose code now rand) m)"

text \<open>
  The life of a socket, as the browser drives it: \<open>socket_alive\<close> holds until the socket
  is closed; it delivers \<open>open\<close> only while connecting and \<open>close\<close> only once, while it
  is alive. The application calls \<open>connect()\<close> once, when it starts (\<open>connectToServer\<close>
  in app.js), so no later event is a call of \<open>connect\<close>. Every other event (a timer, a
  message, \<open>send\<close>, \<open>disconnect\<close>) can occur at any time. \<open>lifecycle evs m\<close>: the
  events \<open>evs\<close> can occur, in this order, from the state \<open>m\<close>.
\<close>

fun socket_alive :: "ready_state option \<Rightarrow> bool" where
  "socket_alive (Some CONNECTING) = True"
| "socket_alive (Some OPEN) = True"
| "socket_alive (Some CLOSING) = True"
| "socket_alive (Some CLOSED) = False"
| "socket_alive None = False"

fun can_occur :: "ws_event \<Rightarrow> ws_manager \<Rightarrow> bool" where
  "can_occur (EvConnect ctorThrows now rand) m = False"
| "can_occur (EvOpen now) m = (ws m = Some CONNECTING)"
| "can_occur (EvClose code now rand) m = socket_alive (ws m)"
| "can_occur ev m = True"

fun lifecycle :: "ws_event list \<Rightarrow> ws_manager \<Rightarrow> bool" where
  "lifecycle [] m = True"
| "lifecycle (ev # evs) m = (can_occur ev m \<and> lifecycle evs (handle ev m))"

text \<open>
  Two invariants. \<open>one_at_a_time\<close>: while a socket is alive no reconnect timer is
  pending, and otherwise at most one is. \<open>at_rest\<close>: no socket is alive or being
  created and no reconnect or connection timer is pending.
\<close>

definition one_at_a_time :: "ws_manager \<Rightarrow> bool" where
  "one_at_a_time m =
     (if socket_alive (ws m) then reconnectTimers m = [] else length (reconnectTimers m) \<le> 1)"

definition at_rest :: "ws_manager \<Rightarrow> bool" where
  "at_rest m =
     (\<not> socket_alive (ws m) \<and> reconnectTimers m = [] \<and> \<not> isConnecting m \<and> \<not> connectionTimer m)"

text \<open>
  \<open>exhausted_manager\<close>: a fresh manager connects and then ten times in a row the
  connection closes abnormally and the reconnect timer fires. \<open>offline_manager\<close> has a
  closed socket and a transport that takes everything; \<open>flaky_manager\<close> has an open
  socket, three queued messages and a transport whose second \<open>send\<close> throws.
  \<open>afterwards\<close> are three timer events.
  \<open>batched_update\<close> is the message
  \<open>{type: "pixel_update", updates: [{x: 1, y: 2, color: "#FF0000"}, {x: 3, y: 4, color: "#00FF00"}]}\<close>
  and \<open>single_update p\<close> the single-cell message for the cell \<open>p\<close>.
\<close>

definition failed_attempt :: "ws_event list" where
  "failed_attempt = [EvClose 1006 0 (1/2), EvReconnectTimer 0 False 0 0]"

definition afterwards :: "ws_event list" where
  "afterwards = [EvReconnectTimer 0 False 2 0, EvHeartbeat 3, EvConnectionTimeout]"

definition exhausted_manager :: ws_manager where
  "exhausted_manager =
     run (EvConnect False 0 0 # concat (replicate 10 failed_attempt)) (new_WebSocketManager (\<lambda>k. False))"



definition batched_update :: server_message where
  "batched_update = \<lparr> msg_type = ''pixel_update'', msg_x = None, msg_y = None, msg_color = None,
     msg_updates = Some [Pixel 1 2 ''#FF0000'', Pixel 3 4 ''#00FF00''], msg_pixels = None,
     msg_online_users = None, msg_count = None, msg_timestamp = None, msg_message = None \<rparr>"

definition single_update :: "pixel \<Rightarrow> server_message" where
  "single_update p = \<lparr> msg_type = ''pixel_update'', msg_x = Some (pixel_x p),
     msg_y = Some (pixel_y p), msg_color = Some (pixel_color p), msg_updates = None,
     msg_pixels = None, msg_online_users = None, msg_count = None, msg_timestamp = None,
     msg_message = None \<rparr>"

section \<open>Clamp idempotence\<close>

lemma clampOffsetX_idem:
  "clampOffsetX lw s fw (clampOffsetX lw s fw x) = clampOffsetX lw s fw x"
  unfolding clampOffsetX_def Let_def by (simp add: min_def max_def)

lemma clampOffsetY_idem:
  "clampOffsetY lh s fh hh (clampOffsetY lh s fh hh y) = clampOffsetY lh s fh hh y"
  unfolding clampOffsetY_def Let_def by (simp add: min_def max_def)

lemma clampOffsets_idem:
  "clampOffsets cfg env s (clampOffsets cfg env s off) = clampOffsets cfg env s off"
  by (simp add: clampOffsets_def clampOffsetX_idem clampOffsetY_idem)

text \<open>
  Claim C9. The offset clamp is idempotent: clamping an already clamped offset, with the
  same scale and the same viewport, changes nothing. This holds for each axis on its own
  (the \<open>if\<close> of \<open>clampOffsetX\<close> and \<open>clampOffsetY\<close> covers both branches, canvas
  larger and canvas not larger than the visible area), for both axes together, and for
  the operations that apply the clamp: a pan by (0, 0) after any keyboard pan or drag
  step leaves the offsets as they are.
\<close>

theorem clamp_idempotent:
  "clampOffsetX lw s fw (clampOffsetX lw s fw x) = clampOffsetX lw s fw x
   \<and> clampOffsetY lh s fh hh (clampOffsetY lh s fh hh y) = clampOffsetY lh s fh hh y
   \<and> clampOffsets cfg env s (clampOffsets cfg env s off) = clampOffsets cfg env s off
   \<and> moveCanvas cfg env 0 0 (moveCanvas cfg env deltaX deltaY st)
        = moveCanvas cfg env deltaX deltaY st
   \<and> moveCanvas cfg env 0 0 (updateDragPosition cfg env dragStart client st)
        = updateDragPosition cfg env dragStart client st"
  by (simp add: clampOffsetX_idem clampOffsetY_idem clampOffsets_idem moveCanvas_def
        updateDragPosition_def Let_def split: prod.splits)

section \<open>Reconnect backoff\<close>

lemma baseDelay_mono:
  assumes "0 \<le> reconnectInterval cfg" "k \<le> n"
  shows "baseDelay cfg k \<le> baseDelay cfg n"
proof -
  have "(2::real) ^ (k - 1) \<le> 2 ^ (n - 1)"
    using assms(2) by (intro power_increasing) auto
  then have "reconnectInterval cfg * 2 ^ (k - 1) \<le> reconnectInterval cfg * 2 ^ (n - 1)"
    using assms(1) by (rule mult_left_mono)
  then show ?thesis by (simp add: baseDelay_def min_def)
qed

lemma baseDelay_cap: "baseDelay cfg n \<le> maxReconnectInterval cfg"
  by (simp add: baseDelay_def)

lemma baseDelay_nonneg:
  assumes "0 \<le> reconnectInterval cfg" "0 \<le> maxReconnectInterval cfg"
  shows "0 \<le> baseDelay cfg n"
  using assms by (simp add: baseDelay_def)

lemma scheduleReconnect_retry:
  assumes "reconnectAttempts m < maxReconnectAttempts (wsconfig m)"
  shows "scheduleReconnect now rand m =
     m\<lparr> reconnectAttempts := reconnectAttempts m + 1,
        connection_reconnectAttempts := reconnectAttempts m + 1,
        reconnectTimers := reconnectTimers m @
          [baseDelay (wsconfig m) (reconnectAttempts m + 1)
             + baseDelay (wsconfig m) (reconnectAttempts m + 1) * (1/10) * rand] \<rparr>"
  using assms by (simp add: scheduleReconnect_def Let_def)

text \<open>
  Claim C4. Let the configured base interval and cap be non-negative and let
  \<open>Math.random()\<close> return \<open>rand\<close> with \<open>0 \<le> rand < 1\<close>. For the attempt number \<open>n\<close>
  with \<open>1 \<le> n \<le> maxReconnectAttempts\<close> (the counter is \<open>n - 1\<close> before the call),
  \<open>scheduleReconnect\<close> sets the counter to \<open>n\<close> and schedules one timer whose delay is
  \<open>min (base * 2^(n-1)) cap\<close> plus a jitter that is never negative and at most 10% of
  that base delay. Without the jitter the delay is non-decreasing in the attempt number
  and never above the cap.
\<close>

theorem reconnect_backoff_delay:
  assumes cfg: "0 \<le> reconnectInterval (wsconfig m)" "0 \<le> maxReconnectInterval (wsconfig m)"
      and rnd: "0 \<le> rand" "rand < 1"
      and n: "1 \<le> n" "n \<le> maxReconnectAttempts (wsconfig m)" "reconnectAttempts m = n - 1"
  shows "reconnectAttempts (scheduleReconnect now rand m) = n
     \<and> baseDelay (wsconfig m) n
         = min (reconnectInterval (wsconfig m) * 2 ^ (n - 1)) (maxReconnectInterval (wsconfig m))
     \<and> (\<exists>jitter. reconnectTimers (scheduleReconnect now rand m)
                     = reconnectTimers m @ [baseDelay (wsconfig m) n + jitter]
           \<and> 0 \<le> jitter \<and> jitter \<le> (1/10) * baseDelay (wsconfig m) n)
     \<and> (\<forall>k. 1 \<le> k \<and> k \<le> n \<longrightarrow> baseDelay (wsconfig m) k \<le> baseDelay (wsconfig m) n)
     \<and> baseDelay (wsconfig m) n \<le> maxReconnectInterval (wsconfig m)"
proof -
  have lt: "reconnectAttempts m < maxReconnectAttempts (wsconfig m)" using n by simp
  have suc: "reconnectAttempts m + 1 = n" "Suc (reconnectAttempts m) = n" using n by simp_all
  let ?b = "baseDelay (wsconfig m) n"
  have b0: "0 \<le> ?b" using cfg by (rule baseDelay_nonneg)
  have j0: "0 \<le> ?b * (1/10) * rand" using b0 rnd(1) by simp
  have "?b * rand \<le> ?b * 1" using b0 rnd(2) by (intro mult_left_mono) auto
  then have j1: "?b * (1/10) * rand \<le> (1/10) * ?b" by simp
  have t: "reconnectTimers (scheduleReconnect now rand m)
             = reconnectTimers m @ [?b + ?b * (1/10) * rand]"
    by (simp add: scheduleReconnect_retry [OF lt] suc)
  have a: "reconnectAttempts (scheduleReconnect now rand m) = n"
    by (simp add: scheduleReconnect_retry [OF lt] suc)
  have j: "\<exists>jitter. reconnectTimers (scheduleReconnect now rand m)
                     = reconnectTimers m @ [?b + jitter]
           \<and> 0 \<le> jitter \<and> jitter \<le> (1/10) * ?b"
    using t j0 j1 by blast
  have mono: "\<forall>k. 1 \<le> k \<and> k \<le> n \<longrightarrow> baseDelay (wsconfig m) k \<le> ?b"
    using baseDelay_mono [OF cfg(1)] by blast
  have d: "?b = min (reconnectInterval (wsconfig m) * 2 ^ (n - 1)) (maxReconnectInterval (wsconfig m))"
    by (simp add: baseDelay_def)
  show ?thesis
    using a d j mono baseDelay_cap [of "wsconfig m" n] by blast
qed

text \<open>
  The fourth attempt of a fresh manager with \<open>Math.random() = 0.5\<close>: base delay
  8000 ms, scheduled delay 8400 ms, and the third base delay (4000 ms) is not larger.
\<close>

theorem reconnect_backoff_delay_witness:
  "(0::real) \<le> reconnectInterval (wsconfig (new_WebSocketManager (\<lambda>k. False))) \<and>
   (0::real) \<le> maxReconnectInterval (wsconfig (new_WebSocketManager (\<lambda>k. False))) \<and>
   (0::real) \<le> 1/2 \<and> (1/2::real) < 1 \<and> (1::nat) \<le> 4 \<and>
   4 \<le> maxReconnectAttempts (wsconfig (new_WebSocketManager (\<lambda>k. False))) \<and>
   reconnectAttempts (scheduleReconnect 0 (1/2)
       ((new_WebSocketManager (\<lambda>k. False))\<lparr> reconnectAttempts := 3 \<rparr>)) = 4 \<and>
   baseDelay default_ws_config 4 = 8000 \<and>
   baseDelay default_ws_config 3 \<le> baseDelay default_ws_config 4 \<and>
   reconnectTimers (scheduleReconnect 0 (1/2)
       ((new_WebSocketManager (\<lambda>k. False))\<lparr> reconnectAttempts := 3 \<rparr>)) = [8400]"
  using reconnect_backoff_delay
    [of "(new_WebSocketManager (\<lambda>k. False))\<lparr> reconnectAttempts := 3 \<rparr>" "1/2" 4 0]
  by (simp add: new_WebSocketManager_def default_ws_config_def baseDelay_def
        scheduleReconnect_def Let_def)

section \<open>Selection\<close>

lemmas env_defs = clampOffsets_def clampOffsetX_def clampOffsetY_def logicalCanvasWidth_def
  logicalCanvasHeight_def finalWidth_def finalHeight_def containerRect_def headerHeight_def
  parseInt_or_def availableWidth_def availableHeight_def sidebarWidth_def

lemma InputController_screenToCanvas_eq:
  assumes "PIXEL_SIZE cfg * scale st \<noteq> 0"
  shows "InputController_screenToCanvas cfg env sx sy st =
     (let gridX = \<lfloor>(sx - rect_left env - offsetX st) / (PIXEL_SIZE cfg * scale st)\<rfloor>;
          gridY = \<lfloor>(sy - rect_top env - offsetY st) / (PIXEL_SIZE cfg * scale st)\<rfloor>
      in if 0 \<le> gridX \<and> real_of_int gridX < CANVAS_WIDTH cfg \<and>
            0 \<le> gridY \<and> real_of_int gridY < CANVAS_HEIGHT cfg
         then Some (gridX, gridY) else None)"
  using assms
  by (simp add: InputController_screenToCanvas_def js_div_def Let_def isValidCanvasPosition_def)

lemma handlePixelSelection_valid:
  "InputController_screenToCanvas cfg env sx sy st = Some pos \<Longrightarrow>
     handlePixelSelection cfg pos st = st\<lparr> selectedPixel := Some pos \<rparr>"
  by (auto simp add: InputController_screenToCanvas_def handlePixelSelection_def Let_def
        split: option.splits if_splits)

lemma handleMouseDown_selectedPixel:
  "selectedPixel (snd (handleMouseDown cfg env sx sy dc st)) =
     (case InputController_screenToCanvas cfg env sx sy st of
        Some pos \<Rightarrow> Some pos | None \<Rightarrow> selectedPixel st)"
  by (simp add: handleMouseDown_def handleDoubleClick_def centerCanvas_def Let_def
        handlePixelSelection_valid split: option.splits)

lemma handleTouchStart_selectedPixel:
  "selectedPixel (handleTouchStart cfg env sx sy st) =
     (case InputController_screenToCanvas cfg env sx sy st of
        Some pos \<Rightarrow> Some pos | None \<Rightarrow> selectedPixel st)"
  by (simp add: handleTouchStart_def handlePixelSelection_valid split: option.splits)

lemma PixelCanvas_handleMouseDown_eq:
  assumes "PIXEL_SIZE cfg * scale st \<noteq> 0"
  shows "selectedPixel (PixelCanvas_handleMouseDown cfg sx sy st) =
     (let gridX = \<lfloor>(sx - offsetX st) / (PIXEL_SIZE cfg * scale st)\<rfloor>;
          gridY = \<lfloor>(sy - offsetY st) / (PIXEL_SIZE cfg * scale st)\<rfloor>
      in if 0 \<le> gridX \<and> real_of_int gridX < CANVAS_WIDTH cfg / PIXEL_SIZE cfg \<and>
            0 \<le> gridY \<and> real_of_int gridY < CANVAS_HEIGHT cfg / PIXEL_SIZE cfg
         then Some (gridX, gridY) else selectedPixel st)"
  using assms
  by (simp add: PixelCanvas_handleMouseDown_def PixelCanvas_screenToCanvas_def js_div_def
        isValidPosition_def Let_def)

text \<open>
  Claim C1, as the code has it. With a non-zero cell size and scale:
  the input controller computes \<open>gridX = floor((sx - rect.left - offsetX) / (PIXEL_SIZE * scale))\<close>
  and \<open>gridY\<close> likewise with \<open>rect.top\<close>, where \<open>rect\<close> is the bounding rectangle of
  the canvas element, and a click or tap selects that cell exactly when
  \<open>0 \<le> gridX < CANVAS_WIDTH\<close> and \<open>0 \<le> gridY < CANVAS_HEIGHT\<close>; otherwise
  \<open>screenToCanvas\<close> returns \<open>null\<close> and the selection stays as it was. With the canvas
  element at the viewport origin this is the formula of the specification. The legacy
  \<open>PixelCanvas\<close> uses the formula of the specification and selects exactly when
  \<open>0 \<le> gridX < CANVAS_WIDTH / PIXEL_SIZE\<close> and \<open>0 \<le> gridY < CANVAS_HEIGHT / PIXEL_SIZE\<close>.
  With the configured values, scale 1, offset (0, 60) and the canvas at the origin, a
  click at (100, 160) selects the cell (20, 20) in both.
\<close>

theorem click_selects_grid_cell:
  assumes "PIXEL_SIZE cfg * scale st \<noteq> 0"
  shows "(let gridX = \<lfloor>(sx - rect_left env - offsetX st) / (PIXEL_SIZE cfg * scale st)\<rfloor>;
              gridY = \<lfloor>(sy - rect_top env - offsetY st) / (PIXEL_SIZE cfg * scale st)\<rfloor>;
              valid = (0 \<le> gridX \<and> real_of_int gridX < CANVAS_WIDTH cfg \<and>
                       0 \<le> gridY \<and> real_of_int gridY < CANVAS_HEIGHT cfg)
          in InputController_screenToCanvas cfg env sx sy st
               = (if valid then Some (gridX, gridY) else None)
           \<and> selectedPixel (snd (handleMouseDown cfg env sx sy dc st))
               = (if valid then Some (gridX, gridY) else selectedPixel st)
           \<and> selectedPixel (handleTouchStart cfg env sx sy st)
               = (if valid then Some (gridX, gridY) else selectedPixel st))
     \<and> (let gridX = \<lfloor>(sx - offsetX st) / (PIXEL_SIZE cfg * scale st)\<rfloor>;
             gridY = \<lfloor>(sy - offsetY st) / (PIXEL_SIZE cfg * scale st)\<rfloor>;
             valid = (0 \<le> gridX \<and> real_of_int gridX < CANVAS_WIDTH cfg / PIXEL_SIZE cfg \<and>
                      0 \<le> gridY \<and> real_of_int gridY < CANVAS_HEIGHT cfg / PIXEL_SIZE cfg)
         in selectedPixel (PixelCanvas_handleMouseDown cfg sx sy st)
              = (if valid then Some (gridX, gridY) else selectedPixel st))
     \<and> (rect_left env = 0 \<and> rect_top env = 0 \<longrightarrow>
          InputController_screenToCanvas cfg env sx sy st = claimed_selection cfg sx sy st)
     \<and> (rect_left env = 0 \<and> rect_top env = 0 \<longrightarrow>
          selectedPixel (snd (handleMouseDown CONFIG env 100 160 dc scenario_state)) = Some (20, 20))
     \<and> selectedPixel (PixelCanvas_handleMouseDown CONFIG 100 160 scenario_state) = Some (20, 20)"
proof (intro conjI)
  show "let gridX = \<lfloor>(sx - rect_left env - offsetX st) / (PIXEL_SIZE cfg * scale st)\<rfloor>;
              gridY = \<lfloor>(sy - rect_top env - offsetY st) / (PIXEL_SIZE cfg * scale st)\<rfloor>;
              valid = (0 \<le> gridX \<and> real_of_int gridX < CANVAS_WIDTH cfg \<and>
                       0 \<le> gridY \<and> real_of_int gridY < CANVAS_HEIGHT cfg)
          in InputController_screenToCanvas cfg env sx sy st
               = (if valid then Some (gridX, gridY) else None)
           \<and> selectedPixel (snd (handleMouseDown cfg env sx sy dc st))
               = (if valid then Some (gridX, gridY) else selectedPixel st)
           \<and> selectedPixel (handleTouchStart cfg env sx sy st)
               = (if valid then Some (gridX, gridY) else selectedPixel st)"
    by (simp add: handleMouseDown_selectedPixel handleTouchStart_selectedPixel
          InputController_screenToCanvas_eq [OF assms] Let_def)
next
  show "let gridX = \<lfloor>(sx - offsetX st) / (PIXEL_SIZE cfg * scale st)\<rfloor>;
             gridY = \<lfloor>(sy - offsetY st) / (PIXEL_SIZE cfg * scale st)\<rfloor>;
             valid = (0 \<le> gridX \<and> real_of_int gridX < CANVAS_WIDTH cfg / PIXEL_SIZE cfg \<and>
                      0 \<le> gridY \<and> real_of_int gridY < CANVAS_HEIGHT cfg / PIXEL_SIZE cfg)
         in selectedPixel (PixelCanvas_handleMouseDown cfg sx sy st)
              = (if valid then Some (gridX, gridY) else selectedPixel st)"
    by (simp add: PixelCanvas_handleMouseDown_eq [OF assms] Let_def)
next
  show "rect_left env = 0 \<and> rect_top env = 0 \<longrightarrow>
          InputController_screenToCanvas cfg env sx sy st = claimed_selection cfg sx sy st"
    by (simp add: InputController_screenToCanvas_eq [OF assms] claimed_selection_def)
next
  have nz: "PIXEL_SIZE CONFIG * scale scenario_state \<noteq> 0"
    by (simp add: CONFIG_def scenario_state_def)
  show "rect_left env = 0 \<and> rect_top env = 0 \<longrightarrow>
          selectedPixel (snd (handleMouseDown CONFIG env 100 160 dc scenario_state)) = Some (20, 20)"
    by (simp add: handleMouseDown_selectedPixel InputController_screenToCanvas_eq [OF nz])
       (simp add: CONFIG_def scenario_state_def)
next
  have nz: "PIXEL_SIZE CONFIG * scale scenario_state \<noteq> 0"
    by (simp add: CONFIG_def scenario_state_def)
  show "selectedPixel (PixelCanvas_handleMouseDown CONFIG 100 160 scenario_state) = Some (20, 20)"
    by (simp add: PixelCanvas_handleMouseDown_eq [OF nz]) (simp add: CONFIG_def scenario_state_def)
qed

theorem click_selects_grid_cell_witness:
  "PIXEL_SIZE CONFIG * scale scenario_state \<noteq> 0
   \<and> rect_left desktop_env = 0 \<and> rect_top desktop_env = 0
   \<and> InputController_screenToCanvas CONFIG desktop_env 100 160 scenario_state = Some (20, 20)
   \<and> claimed_selection CONFIG 100 160 scenario_state = Some (20, 20)
   \<and> selectedPixel (snd (handleMouseDown CONFIG desktop_env 100 160 False scenario_state)) = Some (20, 20)
   \<and> selectedPixel (handleTouchStart CONFIG desktop_env 100 160 scenario_state) = Some (20, 20)
   \<and> selectedPixel (PixelCanvas_handleMouseDown CONFIG 100 160 scenario_state) = Some (20, 20)"
proof -
  have nz: "PIXEL_SIZE CONFIG * scale scenario_state \<noteq> 0"
    by (simp add: CONFIG_def scenario_state_def)
  have r: "rect_left desktop_env = 0 \<and> rect_top desktop_env = 0"
    by (simp add: desktop_env_def)
  from click_selects_grid_cell [OF nz, of 100 desktop_env 160 False] r
  have a: "InputController_screenToCanvas CONFIG desktop_env 100 160 scenario_state
             = claimed_selection CONFIG 100 160 scenario_state"
    and b: "selectedPixel (snd (handleMouseDown CONFIG desktop_env 100 160 False scenario_state))
             = Some (20, 20)"
    and c: "selectedPixel (PixelCanvas_handleMouseDown CONFIG 100 160 scenario_state) = Some (20, 20)"
    by blast+
  have d: "claimed_selection CONFIG 100 160 scenario_state = Some (20, 20)"
    by (simp add: claimed_selection_def CONFIG_def scenario_state_def)
  have e: "selectedPixel (handleTouchStart CONFIG desktop_env 100 160 scenario_state) = Some (20, 20)"
    by (simp add: handleTouchStart_selectedPixel a d)
  show ?thesis using nz r a b c d e by simp
qed

text \<open>
  Claim C1 as stated fails twice. With the canvas element 60 pixels below the top of the
  viewport the input controller selects (20, 8) for the click at (100, 160), where the
  stated formula gives (20, 20). And the legacy canvas selects nothing for a click at
  (2100, 160), which the stated formula maps to the cell (420, 20), inside 1600 by 400.
\<close>

theorem click_selection_counterexample:
  "claimed_selection CONFIG 100 160 scenario_state = Some (20, 20)
   \<and> InputController_screenToCanvas CONFIG header_env 100 160 scenario_state = Some (20, 8)
   \<and> selectedPixel (snd (handleMouseDown CONFIG header_env 100 160 False scenario_state)) = Some (20, 8)
   \<and> claimed_selection CONFIG 2100 160 scenario_state = Some (420, 20)
   \<and> selectedPixel (PixelCanvas_handleMouseDown CONFIG 2100 160 scenario_state) = None"
  by (simp add: claimed_selection_def InputController_screenToCanvas_def handleMouseDown_def
        handleDoubleClick_def handlePixelSelection_def isValidCanvasPosition_def
        PixelCanvas_handleMouseDown_def PixelCanvas_screenToCanvas_def isValidPosition_def
        js_div_def Let_def CONFIG_def scenario_state_def header_env_def desktop_env_def)

section \<open>Zoom: scale bounds and the anchored point\<close>

lemma zoomAtPoint_Some:
  assumes "scale st \<noteq> 0"
  shows "zoomAtPoint cfg env p f st =
     (let newScale = max (1/10) (min 20 (scale st * f))
      in if newScale \<noteq> scale st
         then Some (st\<lparr> scale := newScale,
                offsetX := clampOffsetX (logicalCanvasWidth cfg) newScale (finalWidth env)
                             (fst p - (fst p - offsetX st) / scale st * newScale),
                offsetY := clampOffsetY (logicalCanvasHeight cfg) newScale (finalHeight env)
                             (headerHeight env)
                             (snd p - (snd p - offsetY st) / scale st * newScale) \<rparr>)
         else Some st)"
  using assms by (simp add: zoomAtPoint_def js_div_def Let_def clampOffsets_def)

text \<open>
  Whatever the configured bounds are, the input controller clamps the scale to the
  interval from 0.1 to 20.
\<close>

lemma zoomAtPoint_scale:
  assumes "scale st \<noteq> 0"
  shows "\<exists>st'. zoomAtPoint cfg env p f st = Some st'
            \<and> scale st' = max (1/10) (min 20 (scale st * f))"
  using assms by (auto simp add: zoomAtPoint_Some Let_def)

text \<open>
  Claim C3 fails on the code: \<open>zoomAtPoint\<close> clamps to the literals 0.1 and 20, not to
  \<open>MIN_SCALE\<close> and \<open>MAX_SCALE\<close>. Four keyboard zoom-out steps (the \<open>Minus\<close> key,
  factor 0.8) from the start viewport give the scale 0.4096, below the configured
  minimum 0.5.
\<close>

theorem keyboard_zoom_below_MIN_SCALE:
  "Option.bind (Option.bind (Option.bind
        (zoomAtCenter CONFIG desktop_env (8/10) scenario_state)
        (zoomAtCenter CONFIG desktop_env (8/10)))
        (zoomAtCenter CONFIG desktop_env (8/10)))
        (zoomAtCenter CONFIG desktop_env (8/10))
     = Some \<lparr> scale = 256/625, offsetX = 0, offsetY = 60, selectedPixel = None \<rparr>
   \<and> (256/625 :: real) < MIN_SCALE CONFIG"
  by (simp add: zoomAtCenter_def zoomAtPoint_def js_div_def Let_def env_defs CONFIG_def
        desktop_env_def scenario_state_def)

lemma zoomAtPoint_anchor:
  assumes "scale st \<noteq> 0"
  shows "let newScale = max (1/10) (min 20 (scale st * f));
             candX = px - (px - offsetX st) / scale st * newScale;
             candY = py - (py - offsetY st) / scale st * newScale
         in newScale \<noteq> scale st \<longrightarrow>
            (\<exists>st'. zoomAtPoint cfg env (px, py) f st = Some st' \<and> scale st' = newScale
               \<and> (offsetX st', offsetY st') = clampOffsets cfg env newScale (candX, candY)
               \<and> (clampOffsets cfg env newScale (candX, candY) = (candX, candY) \<longrightarrow>
                    (px - offsetX st') / scale st' = (px - offsetX st) / scale st
                  \<and> (py - offsetY st') / scale st' = (py - offsetY st) / scale st))"
proof -
  have pos: "max (1/10) (min 20 (scale st * f)) \<noteq> (0::real)" by (simp add: max_def min_def)
  show ?thesis
    using assms pos by (simp add: zoomAtPoint_Some Let_def clampOffsets_def)
qed

lemma PixelCanvas_handleWheel_anchor:
  assumes "scale st \<noteq> 0"
  shows "let newScale = (if deltaY < 0 then scale st * (11/10) else scale st / (11/10))
         in MIN_SCALE cfg \<le> newScale \<and> newScale \<le> MAX_SCALE cfg \<longrightarrow>
            (\<exists>st'. PixelCanvas_handleWheel cfg (px, py) deltaY st = Some st' \<and> scale st' = newScale
               \<and> offsetX st' = claimed_zoom_offset px (offsetX st) (scale st) newScale
               \<and> offsetY st' = claimed_zoom_offset py (offsetY st) (scale st) newScale
               \<and> (px - offsetX st') / scale st' = (px - offsetX st) / scale st
               \<and> (py - offsetY st') / scale st' = (py - offsetY st) / scale st)"
  using assms
  by (auto simp add: PixelCanvas_handleWheel_def js_div_def Let_def sgn_real_def
        claimed_zoom_offset_def field_simps)

lemma zoomAtPoint_scenario:
  "finalWidth env \<le> 9520 \<and> finalHeight env \<le> 2340 \<and> 0 \<le> headerHeight env \<longrightarrow>
     zoomAtPoint CONFIG env (400, 300) (12/10) origin_state
       = Some \<lparr> scale = 12/10, offsetX = - 80, offsetY = - 60, selectedPixel = None \<rparr>
     \<and> (400 - (- 80)) / (12/10) = (400 - 0) / (1::real)
     \<and> (300 - (- 60)) / (12/10) = (300 - 0) / (1::real)"
  by (simp add: zoomAtPoint_Some Let_def clampOffsetX_def clampOffsetY_def
        logicalCanvasWidth_def logicalCanvasHeight_def CONFIG_def origin_state_def)

text \<open>
  Claim C7, as the code has it. For a zoom of the input controller about the screen
  point \<open>(px, py)\<close> that changes the scale, the candidate offset is
  \<open>p - ((p - offset) / scale) * newScale\<close> and the offset written is the clamp of that
  candidate; when the clamp leaves the candidate as it is, the world coordinate
  \<open>(p - offset) / scale\<close> under the point is the same before and after. The legacy
  wheel handler does not clamp: whenever it accepts the new scale, the new offset is the
  formula's and the world coordinate under the cursor is kept. Zooming by 1.2 about
  (400, 300) from scale 1 and offset (0, 0), in a visible area of at most 9520 by 2340
  pixels, gives scale 1.2 and offset (-80, -60), which keeps (400, 300) in place.
\<close>

theorem zoom_keeps_point_unless_clamped:
  assumes "scale st \<noteq> 0"
  shows "(let newScale = max (1/10) (min 20 (scale st * f));
              candX = px - (px - offsetX st) / scale st * newScale;
              candY = py - (py - offsetY st) / scale st * newScale
          in newScale \<noteq> scale st \<longrightarrow>
            (\<exists>st'. zoomAtPoint cfg env (px, py) f st = Some st' \<and> scale st' = newScale
               \<and> (offsetX st', offsetY st') = clampOffsets cfg env newScale (candX, candY)
               \<and> (clampOffsets cfg env newScale (candX, candY) = (candX, candY) \<longrightarrow>
                    (px - offsetX st') / scale st' = (px - offsetX st) / scale st
                  \<and> (py - offsetY st') / scale st' = (py - offsetY st) / scale st)))
     \<and> (let newScale = (if deltaY < 0 then scale st * (11/10) else scale st / (11/10))
         in MIN_SCALE cfg \<le> newScale \<and> newScale \<le> MAX_SCALE cfg \<longrightarrow>
            (\<exists>st'. PixelCanvas_handleWheel cfg (px, py) deltaY st = Some st' \<and> scale st' = newScale
               \<and> offsetX st' = claimed_zoom_offset px (offsetX st) (scale st) newScale
               \<and> offsetY st' = claimed_zoom_offset py (offsetY st) (scale st) newScale
               \<and> (px - offsetX st') / scale st' = (px - offsetX st) / scale st
               \<and> (py - offsetY st') / scale st' = (py - offsetY st) / scale st))
     \<and> (finalWidth env \<le> 9520 \<and> finalHeight env \<le> 2340 \<and> 0 \<le> headerHeight env \<longrightarrow>
          zoomAtPoint CONFIG env (400, 300) (12/10) origin_state
            = Some \<lparr> scale = 12/10, offsetX = - 80, offsetY = - 60, selectedPixel = None \<rparr>
          \<and> (400 - (- 80)) / (12/10) = (400 - 0) / (1::real)
          \<and> (300 - (- 60)) / (12/10) = (300 - 0) / (1::real))"
  using zoomAtPoint_anchor [OF assms, of f px py cfg env]
    PixelCanvas_handleWheel_anchor [OF assms, of deltaY cfg px py]
    zoomAtPoint_scenario [of env]
  by blast

theorem zoom_keeps_point_unless_clamped_witness:
  "scale origin_state \<noteq> 0
   \<and> finalWidth desktop_env \<le> 9520 \<and> finalHeight desktop_env \<le> 2340 \<and> 0 \<le> headerHeight desktop_env
   \<and> zoomAtPoint CONFIG desktop_env (400, 300) (12/10) origin_state
       = Some \<lparr> scale = 12/10, offsetX = - 80, offsetY = - 60, selectedPixel = None \<rparr>
   \<and> MIN_SCALE CONFIG \<le> scale origin_state * (11/10) \<and> scale origin_state * (11/10) \<le> MAX_SCALE CONFIG
   \<and> (\<exists>st'. PixelCanvas_handleWheel CONFIG (400, 300) (- 1) origin_state = Some st'
         \<and> scale st' = 11/10 \<and> offsetX st' = - 40 \<and> offsetY st' = - 30
         \<and> (400 - offsetX st') / scale st' = 400 \<and> (300 - offsetY st') / scale st' = 300)"
proof -
  have nz: "scale origin_state \<noteq> 0" by (simp add: origin_state_def)
  have env: "finalWidth desktop_env \<le> 9520 \<and> finalHeight desktop_env \<le> 2340
       \<and> 0 \<le> headerHeight desktop_env"
    by (simp add: env_defs desktop_env_def)
  have b: "MIN_SCALE CONFIG \<le> scale origin_state * (11/10)
       \<and> scale origin_state * (11/10) \<le> MAX_SCALE CONFIG"
    by (simp add: CONFIG_def origin_state_def)
  note t = zoom_keeps_point_unless_clamped [OF nz, of "12/10" 400 300 CONFIG desktop_env "- 1"]
  from t env
  have z: "zoomAtPoint CONFIG desktop_env (400, 300) (12/10) origin_state
       = Some \<lparr> scale = 12/10, offsetX = - 80, offsetY = - 60, selectedPixel = None \<rparr>"
    by blast
  from t b
  have w: "\<exists>st'. PixelCanvas_handleWheel CONFIG (400, 300) (- 1) origin_state = Some st'
         \<and> scale st' = scale origin_state * (11/10)
         \<and> offsetX st' = claimed_zoom_offset 400 (offsetX origin_state) (scale origin_state)
                            (scale origin_state * (11/10))
         \<and> offsetY st' = claimed_zoom_offset 300 (offsetY origin_state) (scale origin_state)
                            (scale origin_state * (11/10))
         \<and> (400 - offsetX st') / scale st' = (400 - offsetX origin_state) / scale origin_state
         \<and> (300 - offsetY st') / scale st' = (300 - offsetY origin_state) / scale origin_state"
    by (simp add: Let_def)
  have w': "\<exists>st'. PixelCanvas_handleWheel CONFIG (400, 300) (- 1) origin_state = Some st'
         \<and> scale st' = 11/10 \<and> offsetX st' = - 40 \<and> offsetY st' = - 30
         \<and> (400 - offsetX st') / scale st' = 400 \<and> (300 - offsetY st') / scale st' = 300"
    using w by (simp add: origin_state_def claimed_zoom_offset_def)
  show ?thesis using nz env z b w' by blast
qed

text \<open>
  Claim C7 as stated fails where the clamp moves the candidate. Zooming out by 0.8 about
  (400, 300) from scale 1 and offset (0, 0) in an 800 by 600 container: the stated
  formula gives the offset (80, 60), the code writes (0, 60), and the world coordinate
  under x = 400 moves from 400 to 500.
\<close>

theorem zoom_anchor_counterexample:
  "zoomAtPoint CONFIG desktop_env (400, 300) (8/10) origin_state
     = Some \<lparr> scale = 8/10, offsetX = 0, offsetY = 60, selectedPixel = None \<rparr>
   \<and> claimed_zoom_offset 400 (offsetX origin_state) (scale origin_state) (8/10) = 80
   \<and> claimed_zoom_offset 300 (offsetY origin_state) (scale origin_state) (8/10) = 60
   \<and> (400 - offsetX origin_state) / scale origin_state = 400
   \<and> (400 - 0) / (8/10) = (500::real)"
  by (simp add: zoomAtPoint_def js_div_def Let_def env_defs CONFIG_def desktop_env_def
        origin_state_def claimed_zoom_offset_def)

section \<open>The store: notifications\<close>

lemma invoke_fields [simp]:
  "state (invoke msg v old path cb st) = state st"
  "subscribers (invoke msg v old path cb st) = subscribers st"
  "middleware (invoke msg v old path cb st) = middleware st"
  "calls (invoke msg v old path cb st) = calls st @ [entry v old path (state st) cb]"
  by (simp_all add: invoke_def Let_def entry_def)

lemma fold_invoke_fields [simp]:
  "state (fold (invoke msg v old path) cbs st) = state st"
  "subscribers (fold (invoke msg v old path) cbs st) = subscribers st"
  "middleware (fold (invoke msg v old path) cbs st) = middleware st"
  "calls (fold (invoke msg v old path) cbs st) = calls st @ map (entry v old path (state st)) cbs"
  by (induction cbs arbitrary: st) simp_all

lemma get_cong: "state st = state st' \<Longrightarrow> get st p = get st' p"
  by (simp add: get_def)

lemma subscribersOf_cong: "subscribers st = subscribers st' \<Longrightarrow> subscribersOf st p = subscribersOf st' p"
  by (simp add: subscribersOf_def)

lemma notifyParents_fields:
  "state (notifyParents parts n st) = state st \<and>
   subscribers (notifyParents parts n st) = subscribers st \<and>
   middleware (notifyParents parts n st) = middleware st \<and>
   calls (notifyParents parts n st) = calls st @ concat (map (parentCalls st parts) (rev [1..<Suc n]))"
proof (induction n arbitrary: st)
  case 0
  then show ?case by simp
next
  case (Suc n)
  let ?p = "join_dot (take (Suc n) parts)"
  let ?st1 = "fold (invoke ''Error in parent state subscriber:'' (get st ?p) JNull ?p) (subscribersOf st ?p) st"
  have same: "parentCalls ?st1 parts = parentCalls st parts"
    by (rule ext) (simp add: parentCalls_def get_cong [of ?st1 st] subscribersOf_cong [of ?st1 st])
  have step: "notifyParents parts (Suc n) st = notifyParents parts n ?st1"
    by (simp add: Let_def)
  show ?case
    unfolding step using Suc.IH [of ?st1]
    by (simp add: same parentCalls_def)
qed

lemma notifySubscribers_fields:
  "state (notifySubscribers path v old st) = state st \<and>
   subscribers (notifySubscribers path v old st) = subscribers st \<and>
   middleware (notifySubscribers path v old st) = middleware st \<and>
   calls (notifySubscribers path v old st) =
     calls st @ map (entry v old path (state st)) (subscribersOf st path)
       @ concat (map (parentCalls st (split_dot path)) (rev [1..<length (split_dot path)]))"
proof -
  let ?st1 = "fold (invoke ''Error in state subscriber:'' v old path) (subscribersOf st path) st"
  have same: "parentCalls ?st1 (split_dot path) = parentCalls st (split_dot path)"
    by (rule ext) (simp add: parentCalls_def get_cong [of ?st1 st] subscribersOf_cong [of ?st1 st])
  have len: "split_dot path \<noteq> []" by (induction path) (auto split: list.splits)
  then have suc: "Suc (length (split_dot path) - 1) = length (split_dot path)" by simp
  show ?thesis
    using notifyParents_fields [of "split_dot path" "length (split_dot path) - 1" ?st1, unfolded suc]
    by (simp add: notifySubscribers_def Let_def same del: upt_Suc)
qed

lemma getProp_update: "getProp (JObj (AList.update k v kvs)) k = v"
  by (simp add: update_conv')

lemma setNested_get:
  "setNested obj keys lastKey v = Inr obj' \<Longrightarrow> foldl getProp obj' (keys @ [lastKey]) = v"
proof (induction obj keys lastKey v arbitrary: obj' rule: setNested.induct)
  case (1 kvs lastKey v)
  then show ?case by (auto simp: update_conv')
next
  case (2 kvs key keys lastKey v)
  then show ?case by (auto simp: update_conv' split: sum.splits)
qed simp_all

lemma split_dot_nonempty: "split_dot path \<noteq> []"
  by (induction path) (auto split: list.splits)

lemma setNestedValue_get:
  "setNestedValue obj path v = Inr obj' \<Longrightarrow> getNestedValue obj' path = v"
  using setNested_get [of obj "butlast (split_dot path)" "last (split_dot path)" v obj']
  by (simp add: setNestedValue_def getNestedValue_def Let_def split_dot_nonempty)

lemma call_id_entry [simp]: "call_id (entry v old p s cb) = cb_id cb"
  by (simp add: entry_def)

lemma notifySubscribers_ids:
  "map call_id (calls (notifySubscribers path v old st)) = map call_id (calls st) @ notified st path"
  by (simp add: notifySubscribers_fields notified_def parentCalls_def map_concat comp_def)

lemma set_path_ok:
  assumes "setNestedValue (state st) path v = Inr s'"
      and "\<not> list_ex (\<lambda>m. m path v (get st path)) (middleware st)"
  shows "set_path path v st = Inr (notifySubscribers path v (get st path) (st\<lparr> state := s' \<rparr>))"
  using assms by (simp add: set_path_def Let_def)

lemma notified_cong: "subscribers st = subscribers st' \<Longrightarrow> notified st p = notified st' p"
  by (simp add: notified_def subscribersOf_cong [of st st'])

lemma notifySubscribers_calls:
  "\<exists>new. calls (notifySubscribers path v old st) = calls st @ new
      \<and> map call_id new = notified st path
      \<and> list_all (\<lambda>c. call_state c = state st) new"
proof -
  let ?new = "map (entry v old path (state st)) (subscribersOf st path)
       @ concat (map (parentCalls st (split_dot path)) (rev [1..<length (split_dot path)]))"
  have "calls (notifySubscribers path v old st) = calls st @ ?new"
    by (simp add: notifySubscribers_fields)
  moreover have "map call_id ?new = notified st path"
    by (simp add: notified_def parentCalls_def map_concat comp_def)
  moreover have "list_all (\<lambda>c. call_state c = state st) ?new"
    by (auto simp add: list_all_iff entry_def parentCalls_def)
  ultimately show ?thesis by blast
qed

lemma notifySubscribers_same:
  "state (notifySubscribers path v old st) = state st"
  "subscribers (notifySubscribers path v old st) = subscribers st"
  "middleware (notifySubscribers path v old st) = middleware st"
  by (simp_all add: notifySubscribers_fields)

lemma fold_notify:
  "state (fold (\<lambda>(p, v, old). notifySubscribers p v old) changes st) = state st \<and>
   subscribers (fold (\<lambda>(p, v, old). notifySubscribers p v old) changes st) = subscribers st \<and>
   middleware (fold (\<lambda>(p, v, old). notifySubscribers p v old) changes st) = middleware st \<and>
   (\<exists>new. calls (fold (\<lambda>(p, v, old). notifySubscribers p v old) changes st) = calls st @ new
      \<and> map call_id new = concat (map (\<lambda>ch. notified st (fst ch)) changes)
      \<and> list_all (\<lambda>c. call_state c = state st) new)"
proof (induction changes arbitrary: st)
  case Nil
  then show ?case by simp
next
  case (Cons ch changes)
  obtain p v old where ch: "ch = (p, v, old)" by (cases ch) auto
  let ?st1 = "notifySubscribers p v old st"
  let ?st2 = "fold (\<lambda>(p, v, old). notifySubscribers p v old) changes ?st1"
  obtain new1 where new1: "calls ?st1 = calls st @ new1" "map call_id new1 = notified st p"
      "list_all (\<lambda>c. call_state c = state st) new1"
    using notifySubscribers_calls [of p v old st] by blast
  have n: "(\<lambda>ch. notified ?st1 (fst ch)) = (\<lambda>ch. notified st (fst ch))"
    by (auto simp: fun_eq_iff notified_cong [OF notifySubscribers_same(2)])
  from Cons.IH [of ?st1] obtain new2 where ih:
    "state ?st2 = state st" "subscribers ?st2 = subscribers st" "middleware ?st2 = middleware st"
    "calls ?st2 = calls ?st1 @ new2"
    "map call_id new2 = concat (map (\<lambda>ch. notified st (fst ch)) changes)"
    "list_all (\<lambda>c. call_state c = state st) new2"
    unfolding n by (auto simp add: notifySubscribers_same)
  have "calls ?st2 = calls st @ (new1 @ new2)" using ih(4) new1(1) by simp
  moreover have "map call_id (new1 @ new2) = concat (map (\<lambda>ch. notified st (fst ch)) (ch # changes))"
    using new1(2) ih(5) by (simp add: ch)
  moreover have "list_all (\<lambda>c. call_state c = state st) (new1 @ new2)"
    using new1(3) ih(6) by simp
  ultimately show ?case using ih(1-3) by (simp add: ch)
qed

lemma writeAll_same:
  "writeAll updates st = Inr (st1, changes) \<Longrightarrow>
     subscribers st1 = subscribers st \<and> middleware st1 = middleware st \<and> calls st1 = calls st
     \<and> map (\<lambda>(p, v, old). (p, v)) changes = updates"
proof (induction updates arbitrary: st st1 changes)
  case Nil
  then show ?case by simp
next
  case (Cons u updates)
  obtain p v where u: "u = (p, v)" by (cases u) auto
  from Cons.prems obtain s' st2 changes2 where
    w: "setNestedValue (state st) p v = Inr s'"
       "writeAll updates (st\<lparr> state := s' \<rparr>) = Inr (st2, changes2)"
       "st1 = st2" "changes = (p, v, get st p) # changes2"
    by (auto simp add: u Let_def split: sum.splits prod.splits)
  from Cons.IH [OF w(2)] show ?case by (simp add: w u)
qed

lemma set_path_calls:
  assumes "setNestedValue (state st) path v = Inr s'"
      and "\<not> list_ex (\<lambda>m. m path v (get st path)) (middleware st)"
  shows "\<exists>st' new. set_path path v st = Inr st' \<and> state st' = s' \<and> get st' path = v
           \<and> subscribers st' = subscribers st \<and> middleware st' = middleware st
           \<and> calls st' = calls st @ new \<and> map call_id new = notified st path
           \<and> list_all (\<lambda>c. call_state c = s') new"
proof -
  let ?st1 = "st\<lparr> state := s' \<rparr>"
  let ?st' = "notifySubscribers path v (get st path) ?st1"
  obtain new where new: "calls ?st' = calls ?st1 @ new" "map call_id new = notified ?st1 path"
      "list_all (\<lambda>c. call_state c = state ?st1) new"
    using notifySubscribers_calls [of path v "get st path" ?st1] by blast
  have "set_path path v st = Inr ?st'" using assms by (rule set_path_ok)
  moreover have "state ?st' = s'" by (simp add: notifySubscribers_same)
  moreover have "get ?st' path = v"
    using setNestedValue_get [OF assms(1)] by (simp add: get_def notifySubscribers_same)
  moreover have "notified ?st1 path = notified st path" by (rule notified_cong) simp
  ultimately show ?thesis using new by (auto simp add: notifySubscribers_same)
qed

lemma batchUpdate_calls:
  assumes "writeAll updates st = Inr (st1, changes)"
      and "\<not> list_ex (\<lambda>(path, v, oldValue). list_ex (\<lambda>m. m path v oldValue) (middleware st1)) changes"
  shows "\<exists>st' new. batchUpdate updates st = Inr st' \<and> state st' = state st1
           \<and> subscribers st' = subscribers st \<and> middleware st' = middleware st
           \<and> calls st' = calls st @ new
           \<and> map call_id new = concat (map (\<lambda>ch. notified st (fst ch)) changes)
           \<and> list_all (\<lambda>c. call_state c = state st1) new"
proof -
  let ?st' = "fold (\<lambda>(p, v, old). notifySubscribers p v old) changes st1"
  have b: "batchUpdate updates st = Inr ?st'" using assms by (simp add: batchUpdate_def)
  have same: "subscribers st1 = subscribers st" "middleware st1 = middleware st" "calls st1 = calls st"
    using writeAll_same [OF assms(1)] by simp_all
  have n: "(\<lambda>ch. notified st1 (fst ch)) = (\<lambda>ch. notified st (fst ch))"
    by (auto simp: fun_eq_iff notified_cong [OF same(1)])
  show ?thesis using fold_notify [of changes st1] unfolding b n same by auto
qed

lemma foldl_getProp_undefined: "foldl getProp JUndefined ks = JUndefined"
  by (induction ks) simp_all

lemma setNested_other:
  "setNested obj keys lastKey v = Inr obj' \<Longrightarrow> \<not> prefix (keys @ [lastKey]) ks \<Longrightarrow>
   \<not> prefix ks (keys @ [lastKey]) \<Longrightarrow> foldl getProp obj' ks = foldl getProp obj ks"
proof (induction obj keys lastKey v arbitrary: obj' ks rule: setNested.induct)
  case (1 kvs lastKey v)
  then obtain k ks' where ks: "ks = k # ks'" "k \<noteq> lastKey" by (cases ks) auto
  with 1 show ?case by (auto simp: update_conv')
next
  case (2 kvs key keys lastKey v)
  let ?c0 = "case map_of kvs key of Some c \<Rightarrow> c | None \<Rightarrow> JObj []"
  from "2.prems"(1) obtain c' where c': "setNested ?c0 keys lastKey v = Inr c'"
      "obj' = JObj (AList.update key c' kvs)"
    by (auto split: sum.splits)
  from "2.prems"(3) obtain k ks' where ks: "ks = k # ks'" by (cases ks) auto
  show ?case
  proof (cases "k = key")
    case False
    then show ?thesis by (simp add: ks c' update_conv')
  next
    case True
    have p1: "\<not> prefix (keys @ [lastKey]) ks'" using "2.prems"(2) by (simp add: ks True)
    have p2: "\<not> prefix ks' (keys @ [lastKey])" using "2.prems"(3) by (simp add: ks True)
    then obtain k' r where ks': "ks' = k' # r" by (cases ks') auto
    have ih: "foldl getProp c' ks' = foldl getProp ?c0 ks'"
      using "2.IH" [OF c'(1) p1 p2] .
    show ?thesis
      by (cases "map_of kvs key")
         (simp_all add: ks True c' update_conv' ih, simp add: ks' foldl_getProp_undefined)
  qed
qed simp_all

lemma setNestedValue_other:
  assumes "setNestedValue obj q v = Inr obj'" "incomparable p q"
  shows "getNestedValue obj' p = getNestedValue obj p"
  using setNested_other [of obj "butlast (split_dot q)" "last (split_dot q)" v obj' "split_dot p"] assms
  by (simp add: setNestedValue_def getNestedValue_def Let_def split_dot_nonempty incomparable_def)

lemma writeAll_other:
  "writeAll updates st = Inr (st1, changes) \<Longrightarrow> list_all (incomparable p) (map fst updates) \<Longrightarrow>
     get st1 p = get st p"
proof (induction updates arbitrary: st st1 changes)
  case Nil
  then show ?case by simp
next
  case (Cons u updates)
  obtain q v where u: "u = (q, v)" by (cases u) auto
  from Cons.prems(1) obtain s' changes2 where
    w: "setNestedValue (state st) q v = Inr s'"
       "writeAll updates (st\<lparr> state := s' \<rparr>) = Inr (st1, changes2)"
    by (auto simp add: u Let_def split: sum.splits prod.splits)
  have "get st1 p = get (st\<lparr> state := s' \<rparr>) p"
    using Cons.IH [OF w(2)] Cons.prems(2) by simp
  also have "\<dots> = get st p"
    using setNestedValue_other [OF w(1), of p] Cons.prems(2) by (simp add: get_def u)
  finally show ?case .
qed

lemma writeAll_get:
  "writeAll updates st = Inr (st1, changes) \<Longrightarrow> independent (map fst updates) \<Longrightarrow>
     list_all (\<lambda>(p, v). get st1 p = v) updates"
proof (induction updates arbitrary: st st1 changes)
  case Nil
  then show ?case by simp
next
  case (Cons u updates)
  obtain q v where u: "u = (q, v)" by (cases u) auto
  from Cons.prems(1) obtain s' changes2 where
    w: "setNestedValue (state st) q v = Inr s'"
       "writeAll updates (st\<lparr> state := s' \<rparr>) = Inr (st1, changes2)"
    by (auto simp add: u Let_def split: sum.splits prod.splits)
  have "get st1 q = get (st\<lparr> state := s' \<rparr>) q"
    using writeAll_other [OF w(2), of q] Cons.prems(2) by (simp add: u)
  then have "get st1 q = v" using setNestedValue_get [OF w(1)] by (simp add: get_def)
  moreover have "list_all (\<lambda>(p, v). get st1 p = v) updates"
    using Cons.IH [OF w(2)] Cons.prems(2) by (simp add: u)
  ultimately show ?case by (simp add: u)
qed

lemma batchUpdate_values:
  assumes "writeAll updates st = Inr (st1, changes)"
      and "\<not> list_ex (\<lambda>(path, v, oldValue). list_ex (\<lambda>m. m path v oldValue) (middleware st1)) changes"
  shows "\<exists>st' new. batchUpdate updates st = Inr st' \<and> state st' = state st1
           \<and> map (\<lambda>(p, v, old). (p, v)) changes = updates
           \<and> (independent (map fst updates) \<longrightarrow> list_all (\<lambda>(p, v). get st' p = v) updates)
           \<and> calls st' = calls st @ new
           \<and> map call_id new = concat (map (\<lambda>u. notified st (fst u)) updates)
           \<and> list_all (\<lambda>c. call_state c = state st') new"
proof -
  from batchUpdate_calls [OF assms] obtain st' new where r:
    "batchUpdate updates st = Inr st'" "state st' = state st1" "calls st' = calls st @ new"
    "map call_id new = concat (map (\<lambda>ch. notified st (fst ch)) changes)"
    "list_all (\<lambda>c. call_state c = state st1) new"
    by blast
  have ch: "map (\<lambda>(p, v, old). (p, v)) changes = updates"
    using writeAll_same [OF assms(1)] by simp
  have paths: "map fst changes = map fst updates"
    using arg_cong [OF ch, of "map fst"] by (simp add: comp_def case_prod_unfold)
  have ids: "concat (map (\<lambda>ch. notified st (fst ch)) changes)
               = concat (map (\<lambda>u. notified st (fst u)) updates)"
    using arg_cong [OF paths, of "\<lambda>ps. concat (map (notified st) ps)"] by (simp add: comp_def)
  have vals: "independent (map fst updates) \<longrightarrow> list_all (\<lambda>(p, v). get st' p = v) updates"
    using writeAll_get [OF assms(1)] by (auto simp add: get_def r(2))
  show ?thesis using r ch ids vals by auto
qed

lemma split_user_paths:
  "split_dot ''user.cooldownTime'' = [''user'', ''cooldownTime'']"
  "split_dot ''user.isCooldown'' = [''user'', ''isCooldown'']"
  by simp_all

lemma setNestedValue_user:
  assumes "map_of kvs ''user'' = Some (JObj us)" "split_dot path = [''user'', k]"
  shows "setNestedValue (JObj kvs) path v = Inr (JObj (AList.update ''user'' (JObj (AList.update k v us)) kvs))"
  using assms by (simp add: setNestedValue_def Let_def)

lemma getNestedValue_user:
  assumes "map_of kvs ''user'' = Some (JObj us)" "split_dot path = [''user'', k]"
  shows "getNestedValue (JObj kvs) path = getProp (JObj us) k"
  using assms by (simp add: getNestedValue_def)

lemma get_user_update:
  "split_dot path = [''user'', k] \<Longrightarrow>
     getNestedValue (JObj (AList.update ''user'' (JObj us) kvs)) path = getProp (JObj us) k"
  by (simp add: getNestedValue_def update_conv')

lemma batchUpdate_cooldown:
  assumes st: "state st = JObj kvs" "map_of kvs ''user'' = Some (JObj us)"
      and mw: "\<forall>m\<in>set (middleware st). \<forall>p v old. \<not> m p v old"
  shows "\<exists>st' new. batchUpdate [(''user.isCooldown'', b), (''user.cooldownTime'', t)] st = Inr st'
           \<and> get st' ''user.isCooldown'' = b \<and> get st' ''user.cooldownTime'' = t
           \<and> calls st' = calls st @ new \<and> list_all (\<lambda>c. call_state c = state st') new"
proof -
  let ?us1 = "AList.update ''isCooldown'' b us"
  let ?kvs1 = "AList.update ''user'' (JObj ?us1) kvs"
  let ?us2 = "AList.update ''cooldownTime'' t ?us1"
  let ?kvs2 = "AList.update ''user'' (JObj ?us2) ?kvs1"
  let ?st1 = "st\<lparr> state := JObj ?kvs2 \<rparr>"
  have m1: "map_of ?kvs1 ''user'' = Some (JObj ?us1)" by (simp add: update_conv')
  have m2: "map_of ?kvs2 ''user'' = Some (JObj ?us2)" by (simp add: update_conv')
  have w: "writeAll [(''user.isCooldown'', b), (''user.cooldownTime'', t)] st =
      Inr (?st1, [(''user.isCooldown'', b, get st ''user.isCooldown''),
                  (''user.cooldownTime'', t, get (st\<lparr> state := JObj ?kvs1 \<rparr>) ''user.cooldownTime'')])"
    using st(1)
    by (simp add: Let_def setNestedValue_user [OF st(2) split_user_paths(2)]
          setNestedValue_user [OF m1 split_user_paths(1)])
  have nomw: "\<not> list_ex (\<lambda>(path, v, oldValue). list_ex (\<lambda>m. m path v oldValue) (middleware ?st1))
      [(''user.isCooldown'', b, get st ''user.isCooldown''),
       (''user.cooldownTime'', t, get (st\<lparr> state := JObj ?kvs1 \<rparr>) ''user.cooldownTime'')]"
    using mw by (auto simp add: list_ex_iff)
  from batchUpdate_calls [OF w nomw] obtain st' new where r:
    "batchUpdate [(''user.isCooldown'', b), (''user.cooldownTime'', t)] st = Inr st'"
    "state st' = JObj ?kvs2" "calls st' = calls st @ new"
    "list_all (\<lambda>c. call_state c = JObj ?kvs2) new"
    by auto
  have "get st' ''user.isCooldown'' = b"
    by (simp add: get_def r(2) get_user_update [OF split_user_paths(2)] update_conv')
  moreover have "get st' ''user.cooldownTime'' = t"
    by (simp add: get_def r(2) get_user_update [OF split_user_paths(1)] update_conv')
  ultimately show ?thesis using r by auto
qed

lemma endCooldown_ok:
  assumes st: "state (appState a) = JObj kvs" "map_of kvs ''user'' = Some (JObj us)"
      and mw: "\<forall>m\<in>set (middleware (appState a)). \<forall>p v old. \<not> m p v old"
  shows "\<exists>a' new. endCooldown a = Inr a'
           \<and> get (appState a') ''user.isCooldown'' = JBool False
           \<and> get (appState a') ''user.cooldownTime'' = JNum 0
           \<and> cooldownInterval a' = cooldownInterval a
           \<and> calls (appState a') = calls (appState a) @ new
           \<and> list_all (\<lambda>c. call_state c = state (appState a')) new"
  using batchUpdate_cooldown [OF st mw, of "JBool False" "JNum 0"]
  by (auto simp add: endCooldown_def)

lemma startCooldown_ok:
  assumes st: "state (appState a) = JObj kvs" "map_of kvs ''user'' = Some (JObj us)"
      and mw: "\<forall>m\<in>set (middleware (appState a)). \<forall>p v old. \<not> m p v old"
  shows "\<exists>a' new. startCooldown cfg a = Inr a'
           \<and> get (appState a') ''user.isCooldown'' = JBool True
           \<and> get (appState a') ''user.cooldownTime'' = JNum (COOLDOWN_TIME cfg)
           \<and> cooldownInterval a'
           \<and> calls (appState a') = calls (appState a) @ new
           \<and> list_all (\<lambda>c. call_state c = state (appState a')) new"
  using batchUpdate_cooldown [OF st mw, of "JBool True" "JNum (COOLDOWN_TIME cfg)"]
  by (auto simp add: startCooldown_def Let_def)

lemma cooldownTick_ok:
  assumes st: "state (appState a) = JObj kvs" "map_of kvs ''user'' = Some (JObj us)"
      and mw: "\<forall>m\<in>set (middleware (appState a)). \<forall>p v old. \<not> m p v old"
  shows "\<exists>a' new. cooldownTick a = Inr a'
      \<and> (if js_le_zero (js_minus_one (get (appState a) ''user.cooldownTime''))
         then get (appState a') ''user.cooldownTime'' = JNum 0
            \<and> get (appState a') ''user.isCooldown'' = JBool False
            \<and> \<not> cooldownInterval a'
         else get (appState a') ''user.cooldownTime'' = js_minus_one (get (appState a) ''user.cooldownTime'')
            \<and> get (appState a') ''user.isCooldown'' = get (appState a) ''user.isCooldown''
            \<and> cooldownInterval a' = cooldownInterval a)
      \<and> calls (appState a') = calls (appState a) @ new
      \<and> list_all (\<lambda>c. call_state c = afterDecrement (state (appState a))
                      \<or> call_state c = state (appState a')) new"
proof -
  let ?t = "js_minus_one (get (appState a) ''user.cooldownTime'')"
  let ?us1 = "AList.update ''cooldownTime'' ?t us"
  let ?kvs1 = "AList.update ''user'' (JObj ?us1) kvs"
  have w: "setNestedValue (state (appState a)) ''user.cooldownTime'' ?t = Inr (JObj ?kvs1)"
    by (simp add: st(1) setNestedValue_user [OF st(2) split_user_paths(1)])
  have mid: "afterDecrement (state (appState a)) = JObj ?kvs1"
    using w by (simp add: afterDecrement_def get_def)
  have nomw: "\<not> list_ex (\<lambda>m. m ''user.cooldownTime'' ?t (get (appState a) ''user.cooldownTime''))
                 (middleware (appState a))"
    using mw by (auto simp add: list_ex_iff)
  from set_path_calls [OF w nomw] obtain st1 new1 where s1:
    "set_path ''user.cooldownTime'' ?t (appState a) = Inr st1" "state st1 = JObj ?kvs1"
    "get st1 ''user.cooldownTime'' = ?t" "middleware st1 = middleware (appState a)"
    "calls st1 = calls (appState a) @ new1" "list_all (\<lambda>c. call_state c = JObj ?kvs1) new1"
    by blast
  have m1: "map_of ?kvs1 ''user'' = Some (JObj ?us1)" by (simp add: update_conv')
  have isc: "get st1 ''user.isCooldown'' = get (appState a) ''user.isCooldown''"
    by (simp add: get_def s1(2) st(1) get_user_update [OF split_user_paths(2)]
          getNestedValue_user [OF st(2) split_user_paths(2)] update_conv')
  show ?thesis
  proof (cases "js_le_zero ?t")
    case True
    let ?a1 = "a\<lparr> appState := st1, cooldownInterval := False \<rparr>"
    have mw1: "\<forall>m\<in>set (middleware (appState ?a1)). \<forall>p v old. \<not> m p v old"
      using mw by (simp add: s1(4))
    have st1: "state (appState ?a1) = JObj ?kvs1" by (simp add: s1(2))
    from endCooldown_ok [OF st1 m1 mw1] obtain a' new2 where e:
      "endCooldown ?a1 = Inr a'" "get (appState a') ''user.isCooldown'' = JBool False"
      "get (appState a') ''user.cooldownTime'' = JNum 0" "cooldownInterval a' = cooldownInterval ?a1"
      "calls (appState a') = calls (appState ?a1) @ new2"
      "list_all (\<lambda>c. call_state c = state (appState a')) new2"
      by blast
    have tick: "cooldownTick a = Inr a'"
      using True e(1) by (simp add: cooldownTick_def Let_def s1(1))
    have "calls (appState a') = calls (appState a) @ (new1 @ new2)"
      using e(5) s1(5) by simp
    moreover have "list_all (\<lambda>c. call_state c = afterDecrement (state (appState a))
                      \<or> call_state c = state (appState a')) (new1 @ new2)"
      using s1(6) e(6) by (auto simp add: mid list_all_iff)
    ultimately show ?thesis using True tick e(2,3,4) by auto
  next
    case False
    have tick: "cooldownTick a = Inr (a\<lparr> appState := st1 \<rparr>)"
      using False by (simp add: cooldownTick_def Let_def s1(1))
    have "list_all (\<lambda>c. call_state c = afterDecrement (state (appState a))
                      \<or> call_state c = state (appState (a\<lparr> appState := st1 \<rparr>))) new1"
      using s1(6) by (auto simp add: mid list_all_iff)
    then show ?thesis using False tick s1(3,5) isc by auto
  qed
qed

lemma initial_cooling: "initial_state = cooling_state (JNum 0) (JBool False)"
  by (simp add: initial_state_def cooling_state_def)

lemma subs: "subscribers (setupStateEvents new_StateManager) =
  [(''canvas.selectedPixel'', [quiet 604, quiet 616, quiet 654]),
   (''user.cooldownTime'', [quiet 611]),
   (''connection.onlineUsers'', [quiet 632]),
   (''user.selectedColor'', [quiet 639]),
   (''user.isCooldown'', [quiet 648]),
   (''connection.isConnected'', [quiet 660]),
   (''ui.cursorPosition'', [quiet 665])]"
  by (simp add: setupStateEvents_def new_StateManager_def subscribe_def subscribersOf_def Let_def quiet_def)

lemma setup_fields:
  "state (setupStateEvents new_StateManager) = initial_state"
  "middleware (setupStateEvents new_StateManager) = []"
  "calls (setupStateEvents new_StateManager) = []"
  by (simp_all add: setupStateEvents_def new_StateManager_def subscribe_def subscribersOf_def Let_def)

lemma cooling_get:
  "getNestedValue (cooling_state t b) ''user.cooldownTime'' = t"
  "getNestedValue (cooling_state t b) ''user.isCooldown'' = b"
  by (simp_all add: getNestedValue_def cooling_state_def)

lemma cooling_set:
  "setNestedValue (cooling_state t b) ''user.cooldownTime'' v = Inr (cooling_state v b)"
  "setNestedValue (cooling_state t b) ''user.isCooldown'' v = Inr (cooling_state t v)"
  by (simp_all add: setNestedValue_def cooling_state_def)

lemma tick_cooling:
  assumes "state (appState a) = cooling_state (JNum t) (JBool True)"
      and "middleware (appState a) = []" and "1 < t"
  shows "\<exists>a'. cooldownTick a = Inr a'
            \<and> state (appState a') = cooling_state (JNum (t - 1)) (JBool True)
            \<and> middleware (appState a') = []
            \<and> subscribers (appState a') = subscribers (appState a)
            \<and> cooldownInterval a' = cooldownInterval a"
proof -
  have g: "get (appState a) ''user.cooldownTime'' = JNum t"
    by (simp add: get_def assms(1) cooling_get)
  have w: "setNestedValue (state (appState a)) ''user.cooldownTime'' (JNum (t - 1))
             = Inr (cooling_state (JNum (t - 1)) (JBool True))"
    by (simp add: assms(1) cooling_set)
  have nomw: "\<not> list_ex (\<lambda>m. m ''user.cooldownTime'' (JNum (t - 1)) (get (appState a) ''user.cooldownTime''))
                 (middleware (appState a))"
    by (simp add: assms(2))
  from set_path_calls [OF w nomw] obtain st1 where s1:
    "set_path ''user.cooldownTime'' (JNum (t - 1)) (appState a) = Inr st1"
    "state st1 = cooling_state (JNum (t - 1)) (JBool True)"
    "subscribers st1 = subscribers (appState a)" "middleware st1 = middleware (appState a)"
    by blast
  have "cooldownTick a = Inr (a\<lparr> appState := st1 \<rparr>)"
    using assms(3) by (simp add: cooldownTick_def Let_def g s1(1))
  then show ?thesis using s1 assms(2) by simp
qed

lemma ticks_cooling:
  assumes "state (appState a) = cooling_state (JNum (real n + 1)) (JBool True)"
      and "middleware (appState a) = []"
  shows "\<exists>a'. cooldownTicks n a = Inr a'
            \<and> state (appState a') = cooling_state (JNum 1) (JBool True)
            \<and> middleware (appState a') = []
            \<and> subscribers (appState a') = subscribers (appState a)
            \<and> cooldownInterval a' = cooldownInterval a"
  using assms
proof (induction n arbitrary: a)
  case 0
  then show ?case by simp
next
  case (Suc n)
  have lt: "1 < real (Suc n) + 1" by simp
  from tick_cooling [OF Suc.prems(1) Suc.prems(2) lt] obtain a1 where a1:
    "cooldownTick a = Inr a1" "state (appState a1) = cooling_state (JNum (real (Suc n) + 1 - 1)) (JBool True)"
    "middleware (appState a1) = []" "subscribers (appState a1) = subscribers (appState a)"
    "cooldownInterval a1 = cooldownInterval a"
    by blast
  have "real (Suc n) + 1 - 1 = real n + 1" by simp
  then have s: "state (appState a1) = cooling_state (JNum (real n + 1)) (JBool True)"
    using a1(2) by (simp only:)
  from Suc.IH [OF s a1(3)] a1 show ?case by auto
qed

lemma startCooldown_new_app:
  "\<exists>a0. startCooldown CONFIG new_app = Inr a0
      \<and> state (appState a0) = cooling_state (JNum 60) (JBool True)
      \<and> middleware (appState a0) = []
      \<and> subscribers (appState a0) = subscribers (setupStateEvents new_StateManager)
      \<and> cooldownInterval a0"
proof -
  let ?st = "setupStateEvents new_StateManager"
  let ?st1 = "?st\<lparr> state := cooling_state (JNum 60) (JBool True) \<rparr>"
  have w: "writeAll [(''user.isCooldown'', JBool True), (''user.cooldownTime'', JNum 60)] ?st
      = Inr (?st1, [(''user.isCooldown'', JBool True, JBool False),
                    (''user.cooldownTime'', JNum 60, JNum 0)])"
    by (simp add: setup_fields initial_cooling cooling_set cooling_get get_def Let_def)
  have nomw: "\<not> list_ex (\<lambda>(path, v, oldValue). list_ex (\<lambda>m. m path v oldValue) (middleware ?st1))
      [(''user.isCooldown'', JBool True, JBool False), (''user.cooldownTime'', JNum 60, JNum 0)]"
    by (simp add: setup_fields)
  from batchUpdate_calls [OF w nomw] obtain st' where r:
    "batchUpdate [(''user.isCooldown'', JBool True), (''user.cooldownTime'', JNum 60)] ?st = Inr st'"
    "state st' = cooling_state (JNum 60) (JBool True)"
    "subscribers st' = subscribers ?st" "middleware st' = middleware ?st"
    by auto
  show ?thesis
    using r by (simp add: startCooldown_def Let_def new_app_def CONFIG_def setup_fields)
qed

lemma last_second_reachable:
  "\<exists>a0 a'. startCooldown CONFIG new_app = Inr a0 \<and> cooldownTicks 59 a0 = Inr a'
      \<and> state (appState a') = state (appState last_second_app)
      \<and> subscribers (appState a') = subscribers (appState last_second_app)
      \<and> middleware (appState a') = middleware (appState last_second_app)
      \<and> cooldownInterval a' = cooldownInterval last_second_app"
proof -
  obtain a0 where a0: "startCooldown CONFIG new_app = Inr a0"
      "state (appState a0) = cooling_state (JNum 60) (JBool True)"
      "middleware (appState a0) = []"
      "subscribers (appState a0) = subscribers (setupStateEvents new_StateManager)"
      "cooldownInterval a0"
    using startCooldown_new_app by blast
  have s: "state (appState a0) = cooling_state (JNum (real 59 + 1)) (JBool True)"
    using a0(2) by simp
  from ticks_cooling [OF s a0(3)] obtain a' where a': "cooldownTicks 59 a0 = Inr a'"
      "state (appState a') = cooling_state (JNum 1) (JBool True)"
      "middleware (appState a') = []" "subscribers (appState a') = subscribers (appState a0)"
      "cooldownInterval a' = cooldownInterval a0"
    by blast
  show ?thesis
    using a0 a' by (auto simp add: last_second_app_def setup_fields)
qed

section \<open>Subscriber exceptions\<close>

text \<open>
  Claim C10. Whichever subscribers throw (\<open>cb_throws\<close> is arbitrary; a subscriber
  observes the store and does not write to it while it is notified), when the write
  itself succeeds and no middleware throws, \<open>set\<close> returns normally, the state is the
  one the write produced, \<open>get\<close> reads the written value afterwards, and the callbacks
  invoked are exactly \<open>notified st path\<close>, in this order: every subscriber of the path,
  then every subscriber of every parent path, each of them called in the state that holds
  the written value. The same holds for \<open>batchUpdate\<close>: it returns normally, its
  changes are the updates in their order, the state is the one after all the writes,
  every written value is read back when the paths are independent, and for each update
  in turn the callbacks of \<open>notified\<close> are invoked, all of them in the final state.
  The paths have no part named like a property of \<open>Object.prototype\<close>.
\<close>

theorem subscriber_exception_contained:
  "(setNestedValue (state st) path v = Inr s' \<and> plain_path path \<and>
    \<not> list_ex (\<lambda>m. m path v (get st path)) (middleware st) \<longrightarrow>
      (\<exists>st' new. set_path path v st = Inr st' \<and> state st' = s' \<and> get st' path = v
          \<and> calls st' = calls st @ new \<and> map call_id new = notified st path
          \<and> list_all (\<lambda>c. call_state c = state st') new))
   \<and> (writeAll updates st = Inr (st1, changes) \<and> list_all plain_path (map fst updates) \<and>
       \<not> list_ex (\<lambda>(path, v, oldValue). list_ex (\<lambda>m. m path v oldValue) (middleware st1)) changes \<longrightarrow>
      (\<exists>st' new. batchUpdate updates st = Inr st' \<and> state st' = state st1
          \<and> map (\<lambda>(p, v, old). (p, v)) changes = updates
          \<and> (independent (map fst updates) \<longrightarrow> list_all (\<lambda>(p, v). get st' p = v) updates)
          \<and> calls st' = calls st @ new
          \<and> map call_id new = concat (map (\<lambda>u. notified st (fst u)) updates)
          \<and> list_all (\<lambda>c. call_state c = state st') new))"
proof -
  have a: "setNestedValue (state st) path v = Inr s' \<and> plain_path path \<and>
    \<not> list_ex (\<lambda>m. m path v (get st path)) (middleware st) \<longrightarrow>
      (\<exists>st' new. set_path path v st = Inr st' \<and> state st' = s' \<and> get st' path = v
          \<and> calls st' = calls st @ new \<and> map call_id new = notified st path
          \<and> list_all (\<lambda>c. call_state c = state st') new)"
  proof (intro impI, elim conjE)
    assume w: "setNestedValue (state st) path v = Inr s'"
       and mw: "\<not> list_ex (\<lambda>m. m path v (get st path)) (middleware st)"
    from set_path_calls [OF w mw] obtain st' new where r:
      "set_path path v st = Inr st'" "state st' = s'" "get st' path = v"
      "calls st' = calls st @ new" "map call_id new = notified st path"
      "list_all (\<lambda>c. call_state c = s') new"
      by blast
    from r(6) have "list_all (\<lambda>c. call_state c = state st') new" by (simp only: r(2))
    with r(1-5) show "\<exists>st' new. set_path path v st = Inr st' \<and> state st' = s' \<and> get st' path = v
          \<and> calls st' = calls st @ new \<and> map call_id new = notified st path
          \<and> list_all (\<lambda>c. call_state c = state st') new"
      by blast
  qed
  have b: "writeAll updates st = Inr (st1, changes) \<and> list_all plain_path (map fst updates) \<and>
       \<not> list_ex (\<lambda>(path, v, oldValue). list_ex (\<lambda>m. m path v oldValue) (middleware st1)) changes \<longrightarrow>
      (\<exists>st' new. batchUpdate updates st = Inr st' \<and> state st' = state st1
          \<and> map (\<lambda>(p, v, old). (p, v)) changes = updates
          \<and> (independent (map fst updates) \<longrightarrow> list_all (\<lambda>(p, v). get st' p = v) updates)
          \<and> calls st' = calls st @ new
          \<and> map call_id new = concat (map (\<lambda>u. notified st (fst u)) updates)
          \<and> list_all (\<lambda>c. call_state c = state st') new)"
    using batchUpdate_values [of updates st st1 changes] by blast
  from a b show ?thesis by (rule conjI)
qed

text \<open>
  In \<open>noisy_store\<close> the callbacks 1 and 3 always throw. A write of
  \<open>user.cooldownTime\<close> still returns, stores the value and reaches 1, 2 (the path) and
  3, 4 (the parent); a batch of two writes stores both values and reaches 3, 4 and then
  1, 2, 3, 4.
\<close>

theorem subscriber_exception_contained_witness:
  "setNestedValue (state noisy_store) ''user.cooldownTime'' (JNum 5)
     = Inr (cooling_state (JNum 5) (JBool False))
   \<and> plain_path ''user.cooldownTime''
   \<and> \<not> list_ex (\<lambda>m. m ''user.cooldownTime'' (JNum 5) (get noisy_store ''user.cooldownTime''))
          (middleware noisy_store)
   \<and> cb_throws (hd (subscribersOf noisy_store ''user.cooldownTime'')) (JNum 5) (JNum 0) ''user.cooldownTime''
   \<and> (\<exists>st' new. set_path ''user.cooldownTime'' (JNum 5) noisy_store = Inr st'
         \<and> get st' ''user.cooldownTime'' = JNum 5
         \<and> calls st' = new \<and> map call_id new = [1, 2, 3, 4])
   \<and> independent [''user.isCooldown'', ''user.cooldownTime'']
   \<and> (\<exists>st' new. batchUpdate [(''user.isCooldown'', JBool True), (''user.cooldownTime'', JNum 60)]
                    noisy_store = Inr st'
         \<and> state st' = cooling_state (JNum 60) (JBool True)
         \<and> get st' ''user.isCooldown'' = JBool True \<and> get st' ''user.cooldownTime'' = JNum 60
         \<and> calls st' = new \<and> map call_id new = [3, 4, 1, 2, 3, 4])"
proof -
  let ?updates = "[(''user.isCooldown'', JBool True), (''user.cooldownTime'', JNum 60)]"
  let ?st1 = "noisy_store\<lparr> state := cooling_state (JNum 60) (JBool True) \<rparr>"
  let ?changes = "[(''user.isCooldown'', JBool True, JBool False),
                   (''user.cooldownTime'', JNum 60, JNum 0)]"
  have f: "state noisy_store = cooling_state (JNum 0) (JBool False)" "middleware noisy_store = []"
    "calls noisy_store = []"
    by (simp_all add: noisy_store_def initial_cooling)
  have w: "setNestedValue (state noisy_store) ''user.cooldownTime'' (JNum 5)
             = Inr (cooling_state (JNum 5) (JBool False))"
    by (simp add: f cooling_set)
  have p: "plain_path ''user.cooldownTime''"
    by (simp add: plain_path_def Object_prototype_names_def)
  have ps: "list_all plain_path (map fst ?updates)"
    by (simp add: plain_path_def Object_prototype_names_def)
  have ind: "independent [''user.isCooldown'', ''user.cooldownTime'']"
    by (simp add: incomparable_def)
  have ind': "independent (map fst ?updates)"
    using ind by simp
  have m: "\<not> list_ex (\<lambda>m. m ''user.cooldownTime'' (JNum 5) (get noisy_store ''user.cooldownTime''))
                (middleware noisy_store)"
    by (simp add: f)
  have t: "cb_throws (hd (subscribersOf noisy_store ''user.cooldownTime'')) (JNum 5) (JNum 0)
             ''user.cooldownTime''"
    by (simp add: noisy_store_def subscribersOf_def)
  have wa: "writeAll ?updates noisy_store = Inr (?st1, ?changes)"
    by (simp add: f cooling_set cooling_get get_def Let_def)
  have ma: "\<not> list_ex (\<lambda>(path, v, oldValue). list_ex (\<lambda>m. m path v oldValue) (middleware ?st1)) ?changes"
    by (simp add: f)
  have n1: "notified noisy_store ''user.cooldownTime'' = [1, 2, 3, 4]"
    by (simp add: notified_def noisy_store_def subscribersOf_def)
  have n2: "concat (map (\<lambda>u. notified noisy_store (fst u)) ?updates) = [3, 4, 1, 2, 3, 4]"
    by (simp add: notified_def noisy_store_def subscribersOf_def)
  note inst = subscriber_exception_contained
    [of noisy_store "''user.cooldownTime''" "JNum 5" "cooling_state (JNum 5) (JBool False)"
        ?updates ?st1 ?changes]
  from inst w p m
  have a: "\<exists>st' new. set_path ''user.cooldownTime'' (JNum 5) noisy_store = Inr st'
         \<and> get st' ''user.cooldownTime'' = JNum 5
         \<and> calls st' = calls noisy_store @ new
         \<and> map call_id new = notified noisy_store ''user.cooldownTime''"
    by blast
  from inst wa ps ma ind'
  have b: "\<exists>st' new. batchUpdate ?updates noisy_store = Inr st'
         \<and> state st' = state ?st1
         \<and> list_all (\<lambda>(p, v). get st' p = v) ?updates
         \<and> calls st' = calls noisy_store @ new
         \<and> map call_id new = concat (map (\<lambda>u. notified noisy_store (fst u)) ?updates)"
    by blast
  have a': "\<exists>st' new. set_path ''user.cooldownTime'' (JNum 5) noisy_store = Inr st'
         \<and> get st' ''user.cooldownTime'' = JNum 5
         \<and> calls st' = new \<and> map call_id new = [1, 2, 3, 4]"
    using a by (simp only: f n1 append_Nil)
  have b': "\<exists>st' new. batchUpdate ?updates noisy_store = Inr st'
         \<and> state st' = cooling_state (JNum 60) (JBool True)
         \<and> get st' ''user.isCooldown'' = JBool True \<and> get st' ''user.cooldownTime'' = JNum 60
         \<and> calls st' = new \<and> map call_id new = [3, 4, 1, 2, 3, 4]"
    using b by (simp only: f n2 append_Nil) simp
  show ?thesis using w p m t a' ind b' by blast
qed

section \<open>Cooldown consistency\<close>

lemma has_user_objectD:
  "has_user_object s \<Longrightarrow> \<exists>kvs us. s = JObj kvs \<and> map_of kvs ''user'' = Some (JObj us)"
  by (cases s; cases "getProp s ''user''") (auto simp add: has_user_object_def split: option.splits)

text \<open>
  Claim C2, as the code has it. In a store whose \<open>user\<close> is an object and whose
  middleware does not throw, a countdown tick returns normally. When the tick brings
  \<open>user.cooldownTime\<close> to 0 or below, then at the end of the tick \<open>cooldownTime\<close> is
  0, \<open>isCooldown\<close> is false and the interval is cleared; in every case the state at the
  end of a tick does not hold \<open>isCooldown = true\<close> together with \<open>cooldownTime \<le> 0\<close>.
  Every callback invoked during the tick sees either the state right after the write of
  the decremented time or the final state.
\<close>

theorem cooldown_consistent_after_tick:
  assumes "has_user_object (state (appState a))"
      and "\<forall>m\<in>set (middleware (appState a)). \<forall>p v old. \<not> m p v old"
  shows "\<exists>a' new. cooldownTick a = Inr a'
      \<and> (js_le_zero (js_minus_one (get (appState a) ''user.cooldownTime'')) \<longrightarrow>
            get (appState a') ''user.cooldownTime'' = JNum 0
          \<and> get (appState a') ''user.isCooldown'' = JBool False
          \<and> \<not> cooldownInterval a')
      \<and> \<not> (js_le_zero (get (appState a') ''user.cooldownTime'')
            \<and> get (appState a') ''user.isCooldown'' = JBool True)
      \<and> calls (appState a') = calls (appState a) @ new
      \<and> list_all (\<lambda>c. call_state c = afterDecrement (state (appState a))
                      \<or> call_state c = state (appState a')) new"
proof -
  obtain kvs us where st: "state (appState a) = JObj kvs" "map_of kvs ''user'' = Some (JObj us)"
    using has_user_objectD [OF assms(1)] by blast
  from cooldownTick_ok [OF st assms(2)] obtain a' new where r:
    "cooldownTick a = Inr a'"
    "if js_le_zero (js_minus_one (get (appState a) ''user.cooldownTime''))
     then get (appState a') ''user.cooldownTime'' = JNum 0
        \<and> get (appState a') ''user.isCooldown'' = JBool False
        \<and> \<not> cooldownInterval a'
     else get (appState a') ''user.cooldownTime'' = js_minus_one (get (appState a) ''user.cooldownTime'')
        \<and> get (appState a') ''user.isCooldown'' = get (appState a) ''user.isCooldown''
        \<and> cooldownInterval a' = cooldownInterval a"
    "calls (appState a') = calls (appState a) @ new"
    "list_all (\<lambda>c. call_state c = afterDecrement (state (appState a))
                      \<or> call_state c = state (appState a')) new"
    by blast
  have "\<not> (js_le_zero (get (appState a') ''user.cooldownTime'')
            \<and> get (appState a') ''user.isCooldown'' = JBool True)"
    using r(2) by (auto split: if_splits)
  then show ?thesis using r by (auto split: if_splits)
qed

theorem cooldown_consistent_after_tick_witness:
  "has_user_object (state (appState last_second_app))
   \<and> middleware (appState last_second_app) = []
   \<and> js_le_zero (js_minus_one (get (appState last_second_app) ''user.cooldownTime''))
   \<and> (\<exists>a'. cooldownTick last_second_app = Inr a'
         \<and> get (appState a') ''user.cooldownTime'' = JNum 0
         \<and> get (appState a') ''user.isCooldown'' = JBool False
         \<and> \<not> cooldownInterval a')"
proof -
  have h: "has_user_object (state (appState last_second_app))"
    by (simp add: last_second_app_def has_user_object_def cooling_state_def)
  have e: "middleware (appState last_second_app) = []"
    by (simp add: last_second_app_def setup_fields)
  have m: "\<forall>m\<in>set (middleware (appState last_second_app)). \<forall>p v old. \<not> m p v old"
    by (simp add: e)
  have z: "js_le_zero (js_minus_one (get (appState last_second_app) ''user.cooldownTime''))"
    by (simp add: last_second_app_def get_def cooling_get)
  from cooldown_consistent_after_tick [OF h m] z
  have "\<exists>a'. cooldownTick last_second_app = Inr a'
         \<and> get (appState a') ''user.cooldownTime'' = JNum 0
         \<and> get (appState a') ''user.isCooldown'' = JBool False
         \<and> \<not> cooldownInterval a'"
    by blast
  then show ?thesis using h e z by blast
qed

text \<open>
  Claim C2 as stated fails for subscribers. In the tick that ends the cooldown (one
  second left; \<open>last_second_reachable\<close> shows how the state is reached) the first
  callback invoked is the subscriber of \<open>user.cooldownTime\<close> registered at line 611 of
  app.js, and the state it can read holds \<open>isCooldown = true\<close> together with
  \<open>cooldownTime = 0\<close>.
\<close>

theorem cooldown_observed_inconsistent:
  "(case cooldownTick last_second_app of
      Inr a' \<Rightarrow> (let c = calls (appState a') ! 0
                 in call_id c = 611 \<and> call_path c = ''user.cooldownTime''
                  \<and> call_value c = JNum 0
                  \<and> getNestedValue (call_state c) ''user.isCooldown'' = JBool True
                  \<and> getNestedValue (call_state c) ''user.cooldownTime'' = JNum 0)
    | Inl e \<Rightarrow> False)"
  by (simp add: cooldownTick_def last_second_app_def setup_fields subs get_def getNestedValue_def
      cooling_state_def set_path_def setNestedValue_def notifySubscribers_def subscribersOf_def
      invoke_def quiet_def endCooldown_def batchUpdate_def Let_def)

section \<open>The outbound queue\<close>












section \<open>The reconnect cap\<close>

lemma send_keeps [simp]:
  "wsconfig (snd (send message q m)) = wsconfig m"
  "reconnectAttempts (snd (send message q m)) = reconnectAttempts m"
  "connection_reconnectAttempts (snd (send message q m)) = connection_reconnectAttempts m"
  by (simp_all add: send_def)

lemma fold_send_keeps [simp]:
  "wsconfig (fold (\<lambda>message s. snd (send message q s)) msgs m) = wsconfig m"
  "reconnectAttempts (fold (\<lambda>message s. snd (send message q s)) msgs m) = reconnectAttempts m"
  "connection_reconnectAttempts (fold (\<lambda>message s. snd (send message q s)) msgs m)
     = connection_reconnectAttempts m"
  by (induction msgs arbitrary: m) simp_all

lemma flush_keeps [simp]:
  "wsconfig (flushMessageQueue m) = wsconfig m"
  "reconnectAttempts (flushMessageQueue m) = reconnectAttempts m"
  "connection_reconnectAttempts (flushMessageQueue m) = connection_reconnectAttempts m"
  by (simp_all add: flushMessageQueue_def Let_def)

lemma scheduleReconnect_bound:
  assumes "reconnectAttempts m \<le> maxReconnectAttempts (wsconfig m)"
      and "connection_reconnectAttempts m \<le> maxReconnectAttempts (wsconfig m)"
  shows "wsconfig (scheduleReconnect now rand m) = wsconfig m
     \<and> reconnectAttempts (scheduleReconnect now rand m) \<le> maxReconnectAttempts (wsconfig m)
     \<and> connection_reconnectAttempts (scheduleReconnect now rand m) \<le> maxReconnectAttempts (wsconfig m)"
  using assms by (simp add: scheduleReconnect_def Let_def)

lemma connect_bound:
  assumes "reconnectAttempts m \<le> maxReconnectAttempts (wsconfig m)"
      and "connection_reconnectAttempts m \<le> maxReconnectAttempts (wsconfig m)"
  shows "wsconfig (connect ctorThrows now rand m) = wsconfig m
     \<and> reconnectAttempts (connect ctorThrows now rand m) \<le> maxReconnectAttempts (wsconfig m)
     \<and> connection_reconnectAttempts (connect ctorThrows now rand m) \<le> maxReconnectAttempts (wsconfig m)"
  using assms
    scheduleReconnect_bound [of "m\<lparr> isConnecting := True, connection_isConnected := False, isConnecting := False \<rparr>" now rand]
  by (simp add: connect_def Let_def)

lemma handle_bound:
  assumes "reconnectAttempts m \<le> maxReconnectAttempts (wsconfig m)"
      and "connection_reconnectAttempts m \<le> maxReconnectAttempts (wsconfig m)"
  shows "wsconfig (handle ev m) = wsconfig m
     \<and> reconnectAttempts (handle ev m) \<le> maxReconnectAttempts (wsconfig m)
     \<and> connection_reconnectAttempts (handle ev m) \<le> maxReconnectAttempts (wsconfig m)"
proof (cases ev)
  case (EvConnect c now rand)
  then show ?thesis using connect_bound [OF assms] by simp
next
  case EvDisconnect
  then show ?thesis by (simp add: disconnect_def Let_def clearTimers_def)
next
  case (EvSend msg q)
  then show ?thesis using assms by simp
next
  case (EvOpen now)
  then show ?thesis by (simp add: handleOpen_def Let_def clearTimers_def startHeartbeat_def)
next
  case (EvClose code now rand)
  let ?m3 = "m\<lparr> ws := Some CLOSED, isConnecting := False, heartbeatTimer := False,
                 connectionTimer := False, connection_isConnected := False \<rparr>"
  have "handle ev m = (if code \<noteq> 1000 then scheduleReconnect now rand ?m3 else ?m3)"
    by (simp add: EvClose handleClose_def Let_def clearTimers_def)
  then show ?thesis using assms scheduleReconnect_bound [of ?m3 now rand] by simp
next
  case EvError
  then show ?thesis using assms by simp
next
  case (EvReconnectTimer i c now rand)
  let ?m1 = "m\<lparr> reconnectTimers := take i (reconnectTimers m) @ drop (Suc i) (reconnectTimers m) \<rparr>"
  show ?thesis using assms connect_bound [of ?m1 c now rand]
    by (simp add: EvReconnectTimer reconnectTimerFires_def Let_def)
next
  case (EvHeartbeat now)
  then show ?thesis using assms by (simp add: heartbeat_def)
next
  case EvConnectionTimeout
  then show ?thesis using assms
    by (simp add: connectionTimeoutFires_def split: option.splits ready_state.splits)
next
  case (EvMessage now msg)
  then show ?thesis using assms
    by (simp add: handleMessage_def handleInitMessage_def handleServerError_def split: option.splits)
qed

lemma run_bound:
  assumes "reconnectAttempts m \<le> maxReconnectAttempts (wsconfig m)"
      and "connection_reconnectAttempts m \<le> maxReconnectAttempts (wsconfig m)"
  shows "wsconfig (run evs m) = wsconfig m
     \<and> reconnectAttempts (run evs m) \<le> maxReconnectAttempts (wsconfig m)
     \<and> connection_reconnectAttempts (run evs m) \<le> maxReconnectAttempts (wsconfig m)"
  using assms
proof (induction evs arbitrary: m)
  case Nil
  then show ?case by (simp add: run_def)
next
  case (Cons ev evs)
  from handle_bound [OF Cons.prems, of ev] Cons.IH [of "handle ev m"]
  show ?case by (simp add: run_def)
qed

lemma handleClose_gives_up:
  assumes "maxReconnectAttempts (wsconfig m) \<le> reconnectAttempts m" "code \<noteq> 1000"
  shows "handleClose code now rand m
           = m\<lparr> isConnecting := False, heartbeatTimer := False, connectionTimer := False,
                connection_isConnected := False,
                ui_notifications := ui_notifications m @ [gave_up now] \<rparr>"
  using assms by (simp add: handleClose_def scheduleReconnect_def clearTimers_def Let_def gave_up_def)

lemma closures_give_up:
  assumes "maxReconnectAttempts (wsconfig m) \<le> reconnectAttempts m"
      and "\<forall>c\<in>set cs. fst c \<noteq> 1000"
  shows "reconnectTimers (closures cs m) = reconnectTimers m
     \<and> reconnectAttempts (closures cs m) = reconnectAttempts m
     \<and> ui_notifications (closures cs m) = ui_notifications m @ map (\<lambda>c. gave_up (fst (snd c))) cs"
  using assms
proof (induction cs arbitrary: m)
  case Nil
  then show ?case by simp
next
  case (Cons c cs)
  obtain code now rand where c: "c = (code, now, rand)" by (cases c) auto
  let ?m1 = "handleClose code now rand (m\<lparr> ws := Some CLOSED \<rparr>)"
  have code: "code \<noteq> 1000" using Cons.prems(2) by (simp add: c)
  have m1: "?m1 = m\<lparr> ws := Some CLOSED, isConnecting := False, heartbeatTimer := False,
                      connectionTimer := False, connection_isConnected := False,
                      ui_notifications := ui_notifications m @ [gave_up now] \<rparr>"
    using handleClose_gives_up [of "m\<lparr> ws := Some CLOSED \<rparr>" code now rand] Cons.prems(1) code
    by simp
  have "maxReconnectAttempts (wsconfig ?m1) \<le> reconnectAttempts ?m1"
    using Cons.prems(1) by (simp add: m1)
  from Cons.IH [OF this] Cons.prems(2) show ?case
    by (simp add: c) (simp add: m1)
qed

lemma exhausted_fields:
  "reconnectAttempts exhausted_manager = 10"
  "wsconfig exhausted_manager = default_ws_config"
  "reconnectTimers exhausted_manager = []"
  "ui_notifications exhausted_manager = []"
  "ws exhausted_manager = Some CONNECTING"
  by (simp_all add: exhausted_manager_def failed_attempt_def run_def eval_nat_numeral
        new_WebSocketManager_def default_ws_config_def connect_def handleClose_def
        clearTimers_def scheduleReconnect_def reconnectTimerFires_def Let_def baseDelay_def)

lemma run_append: "run (xs @ ys) m = run ys (run xs m)"
  by (simp add: run_def)

lemma run_Cons: "run (ev # evs) m = run evs (handle ev m)"
  by (simp add: run_def)

lemma lifecycle_append: "lifecycle (xs @ ys) m = (lifecycle xs m \<and> lifecycle ys (run xs m))"
  by (induction xs arbitrary: m) (simp_all add: run_def)

lemma send_ws [simp]:
  "ws (snd (send message q m)) = ws m"
  "reconnectTimers (snd (send message q m)) = reconnectTimers m"
  "isConnecting (snd (send message q m)) = isConnecting m"
  "connectionTimer (snd (send message q m)) = connectionTimer m"
  by (simp_all add: send_def)

lemma fold_send_ws [simp]:
  "ws (fold (\<lambda>message s. snd (send message q s)) msgs m) = ws m"
  "reconnectTimers (fold (\<lambda>message s. snd (send message q s)) msgs m) = reconnectTimers m"
  by (induction msgs arbitrary: m) simp_all

lemma flush_ws [simp]:
  "ws (flushMessageQueue m) = ws m"
  "reconnectTimers (flushMessageQueue m) = reconnectTimers m"
  by (simp_all add: flushMessageQueue_def Let_def)

lemma scheduleReconnect_timers:
  "ws (scheduleReconnect now rand m) = ws m"
  "length (reconnectTimers (scheduleReconnect now rand m)) \<le> Suc (length (reconnectTimers m))"
  by (simp_all add: scheduleReconnect_def Let_def)

lemma not_alive_open: "\<not> socket_alive w \<Longrightarrow> w \<noteq> Some OPEN \<and> w \<noteq> Some CONNECTING"
  by (cases w rule: socket_alive.cases) simp_all

lemma connect_one_at_a_time:
  assumes "reconnectTimers m = []" "\<not> socket_alive (ws m)"
  shows "one_at_a_time (connect ctorThrows now rand m)"
  using assms scheduleReconnect_timers [of now rand "m\<lparr> isConnecting := True, connection_isConnected := False, isConnecting := False \<rparr>"]
  by (auto simp add: connect_def Let_def one_at_a_time_def)

lemma handle_one_at_a_time:
  assumes "can_occur ev m" "one_at_a_time m"
  shows "one_at_a_time (handle ev m)"
proof (cases ev)
  case (EvConnect c now rand)
  then show ?thesis using assms by simp
next
  case EvDisconnect
  then show ?thesis using assms
    by (auto simp add: disconnect_def Let_def clearTimers_def one_at_a_time_def split: if_splits)
next
  case (EvSend msg q)
  then show ?thesis using assms by (auto simp add: one_at_a_time_def split: if_splits)
next
  case (EvOpen now)
  then show ?thesis using assms
    by (simp add: handleOpen_def Let_def clearTimers_def startHeartbeat_def one_at_a_time_def)
next
  case (EvClose code now rand)
  let ?m3 = "m\<lparr> ws := Some CLOSED, isConnecting := False, heartbeatTimer := False,
                 connectionTimer := False, connection_isConnected := False \<rparr>"
  have h: "handle ev m = (if code \<noteq> 1000 then scheduleReconnect now rand ?m3 else ?m3)"
    by (simp add: EvClose handleClose_def Let_def clearTimers_def)
  have "reconnectTimers m = []" using assms by (simp add: EvClose one_at_a_time_def)
  then show ?thesis using scheduleReconnect_timers [of now rand ?m3]
    by (simp add: h one_at_a_time_def)
next
  case EvError
  then show ?thesis using assms by simp
next
  case (EvReconnectTimer i c now rand)
  show ?thesis
  proof (cases "i < length (reconnectTimers m)")
    case False
    then show ?thesis using assms by (simp add: EvReconnectTimer reconnectTimerFires_def)
  next
    case True
    then have l: "length (reconnectTimers m) = 1" "i = 0" "\<not> socket_alive (ws m)"
      using assms(2) by (auto simp add: one_at_a_time_def split: if_splits)
    let ?m1 = "m\<lparr> reconnectTimers := take i (reconnectTimers m) @ drop (Suc i) (reconnectTimers m) \<rparr>"
    have e: "reconnectTimers ?m1 = []" using l by simp
    have o: "one_at_a_time ?m1" using l e by (simp add: one_at_a_time_def)
    have a: "\<not> socket_alive (ws ?m1)" using l by simp
    show ?thesis using True o connect_one_at_a_time [OF e a, of c now rand]
      by (simp add: EvReconnectTimer reconnectTimerFires_def Let_def)
  qed
next
  case (EvHeartbeat now)
  then show ?thesis using assms by (auto simp add: heartbeat_def one_at_a_time_def split: if_splits)
next
  case EvConnectionTimeout
  then show ?thesis using assms
    by (auto simp add: connectionTimeoutFires_def one_at_a_time_def split: option.splits ready_state.splits if_splits)
next
  case (EvMessage now msg)
  then show ?thesis using assms
    by (auto simp add: handleMessage_def handleInitMessage_def handleServerError_def one_at_a_time_def
          split: option.splits if_splits)
qed

lemma run_one_at_a_time:
  "lifecycle evs m \<Longrightarrow> one_at_a_time m \<Longrightarrow> one_at_a_time (run evs m)"
proof (induction evs arbitrary: m)
  case Nil
  then show ?case by (simp add: run_def)
next
  case (Cons ev evs)
  then show ?case using handle_one_at_a_time [of ev m] by (simp add: run_Cons)
qed

lemma handle_at_rest:
  assumes "can_occur ev m" "at_rest m"
  shows "at_rest (handle ev m)"
proof (cases ev)
  case (EvConnect c now rand)
  then show ?thesis using assms by simp
next
  case EvDisconnect
  then show ?thesis using assms by (simp add: disconnect_def Let_def clearTimers_def at_rest_def)
next
  case (EvSend msg q)
  then show ?thesis using assms by (simp add: at_rest_def)
next
  case (EvOpen now)
  then show ?thesis using assms by (simp add: at_rest_def)
next
  case (EvClose code now rand)
  then show ?thesis using assms by (simp add: at_rest_def)
next
  case EvError
  then show ?thesis using assms by simp
next
  case (EvReconnectTimer i c now rand)
  then show ?thesis using assms by (simp add: reconnectTimerFires_def at_rest_def)
next
  case (EvHeartbeat now)
  then show ?thesis using assms not_alive_open [of "ws m"] by (simp add: heartbeat_def at_rest_def)
next
  case EvConnectionTimeout
  then show ?thesis using assms
    by (auto simp add: connectionTimeoutFires_def at_rest_def split: option.splits ready_state.splits)
next
  case (EvMessage now msg)
  then show ?thesis using assms
    by (simp add: handleMessage_def handleInitMessage_def handleServerError_def at_rest_def
          split: option.splits)
qed

lemma run_at_rest:
  "lifecycle evs m \<Longrightarrow> at_rest m \<Longrightarrow> at_rest (run evs m)"
proof (induction evs arbitrary: m)
  case Nil
  then show ?case by (simp add: run_def)
next
  case (Cons ev evs)
  then show ?case using handle_at_rest [of ev m] by (simp add: run_Cons)
qed

lemma gives_up_for_good:
  assumes life: "lifecycle (before @ EvClose code now rand # after)
                   (handle (EvConnect ctorThrows t r) (new_WebSocketManager throws))"
      and cap: "maxReconnectAttempts default_ws_config
                  \<le> reconnectAttempts (run (EvConnect ctorThrows t r # before) (new_WebSocketManager throws))"
      and code: "code \<noteq> 1000"
  shows "at_rest (run (EvConnect ctorThrows t r # before @ EvClose code now rand # after)
                    (new_WebSocketManager throws))"
proof -
  let ?fresh = "new_WebSocketManager throws"
  let ?start = "handle (EvConnect ctorThrows t r) ?fresh"
  let ?m = "run before ?start"
  let ?g = "handle (EvClose code now rand) ?m"
  have l: "lifecycle before ?start" "socket_alive (ws ?m)" "lifecycle after ?g"
    using life by (simp_all add: lifecycle_append)
  have "reconnectTimers ?fresh = []" "\<not> socket_alive (ws ?fresh)"
    by (simp_all add: new_WebSocketManager_def)
  then have "one_at_a_time (connect ctorThrows t r ?fresh)" by (rule connect_one_at_a_time)
  then have "one_at_a_time ?start" by (simp only: handle.simps)
  with l(1) have "one_at_a_time ?m" by (rule run_one_at_a_time)
  then have timers: "reconnectTimers ?m = []" using l(2) by (simp only: one_at_a_time_def if_True)
  have cfg: "wsconfig ?m = default_ws_config"
    using run_bound [of ?fresh "EvConnect ctorThrows t r # before"]
    by (simp add: run_Cons new_WebSocketManager_def)
  have cap': "maxReconnectAttempts (wsconfig (?m\<lparr> ws := Some CLOSED \<rparr>))
                \<le> reconnectAttempts (?m\<lparr> ws := Some CLOSED \<rparr>)"
    using cap cfg by (simp add: run_Cons)
  have "at_rest ?g"
    using handleClose_gives_up [OF cap' code, of now rand] timers by (simp add: at_rest_def)
  then have "at_rest (run after ?g)" using l(3) by (rule run_at_rest [rotated])
  then show ?thesis by (simp add: run_Cons run_append)
qed

lemma closures_full:
  assumes "maxReconnectAttempts (wsconfig m) \<le> reconnectAttempts m"
      and "\<forall>c\<in>set cs. fst c \<noteq> 1000" "cs \<noteq> []"
  shows "closures cs m = m\<lparr> ws := Some CLOSED, isConnecting := False, heartbeatTimer := False,
                connectionTimer := False, connection_isConnected := False,
                ui_notifications := ui_notifications m @ map (\<lambda>c. gave_up (fst (snd c))) cs \<rparr>"
  using assms
proof (induction cs arbitrary: m)
  case Nil
  then show ?case by simp
next
  case (Cons c cs)
  obtain code now rand where c: "c = (code, now, rand)" by (cases c) auto
  let ?m1 = "handleClose code now rand (m\<lparr> ws := Some CLOSED \<rparr>)"
  have code: "code \<noteq> 1000" using Cons.prems(2) by (simp add: c)
  have m1: "?m1 = m\<lparr> ws := Some CLOSED, isConnecting := False, heartbeatTimer := False,
                      connectionTimer := False, connection_isConnected := False,
                      ui_notifications := ui_notifications m @ [gave_up now] \<rparr>"
    using handleClose_gives_up [of "m\<lparr> ws := Some CLOSED \<rparr>" code now rand] Cons.prems(1) code
    by simp
  have cap: "maxReconnectAttempts (wsconfig ?m1) \<le> reconnectAttempts ?m1"
    using Cons.prems(1) by (simp add: m1)
  show ?case
  proof (cases "cs = []")
    case True
    then show ?thesis by (simp add: c) (simp add: m1)
  next
    case False
    from Cons.IH [OF cap _ False] Cons.prems(2) show ?thesis
      by (simp add: c) (simp add: m1)
  qed
qed

lemma exhausted_lifecycle:
  "lifecycle (concat (replicate 10 failed_attempt) @ EvClose 1006 1 (1/2) # afterwards)
     (handle (EvConnect False 0 0) (new_WebSocketManager (\<lambda>k. False)))"
  by (simp add: afterwards_def failed_attempt_def eval_nat_numeral
        new_WebSocketManager_def default_ws_config_def connect_def handleClose_def
        clearTimers_def scheduleReconnect_def reconnectTimerFires_def Let_def baseDelay_def
        heartbeat_def connectionTimeoutFires_def)

text \<open>
  Claim C5. In every state a manager reaches from its construction, through any events,
  \<open>reconnectAttempts\<close> and the store's \<open>connection.reconnectAttempts\<close> are at most the
  configured maximum, 10. Once the counter has reached the maximum, an abnormal closure
  (a code other than 1000) only marks the socket closed, clears the heartbeat and the
  connection timer and adds one persistent error notification: it schedules no timer,
  creates no socket and leaves the counter; the same holds for every further abnormal
  closure. A reconnect timer still pending at that moment would fire all the same, but in
  a run of the application none is: there, after an abnormal closure at the maximum, at
  every later moment no socket is alive or being created, no reconnect or connection
  timer is pending, and a reconnect-timer event changes nothing.
\<close>

theorem reconnect_attempts_capped:
  "reconnectAttempts (run evs (new_WebSocketManager throws)) \<le> maxReconnectAttempts default_ws_config
   \<and> connection_reconnectAttempts (run evs (new_WebSocketManager throws))
        \<le> maxReconnectAttempts default_ws_config
   \<and> maxReconnectAttempts default_ws_config = 10
   \<and> (maxReconnectAttempts (wsconfig m) \<le> reconnectAttempts m \<and> code \<noteq> 1000 \<longrightarrow>
        handle (EvClose code now rand) m
          = m\<lparr> ws := Some CLOSED, isConnecting := False, heartbeatTimer := False,
               connectionTimer := False, connection_isConnected := False,
               ui_notifications := ui_notifications m @ [gave_up now] \<rparr>
      \<and> reconnectTimers (handle (EvClose code now rand) m) = reconnectTimers m
      \<and> reconnectAttempts (handle (EvClose code now rand) m) = reconnectAttempts m
      \<and> ui_notifications (handle (EvClose code now rand) m) = ui_notifications m @ [gave_up now]
      \<and> note_persistent (gave_up now) \<and> note_type (gave_up now) = ''error'')
   \<and> (maxReconnectAttempts (wsconfig m) \<le> reconnectAttempts m \<and> (\<forall>c\<in>set cs. fst c \<noteq> 1000) \<longrightarrow>
        reconnectTimers (closures cs m) = reconnectTimers m
      \<and> reconnectAttempts (closures cs m) = reconnectAttempts m
      \<and> ui_notifications (closures cs m) = ui_notifications m @ map (\<lambda>c. gave_up (fst (snd c))) cs
      \<and> (cs \<noteq> [] \<longrightarrow>
           closures cs m
             = m\<lparr> ws := Some CLOSED, isConnecting := False, heartbeatTimer := False,
                  connectionTimer := False, connection_isConnected := False,
                  ui_notifications := ui_notifications m @ map (\<lambda>c. gave_up (fst (snd c))) cs \<rparr>))
   \<and> (lifecycle (before @ EvClose code now rand # after)
          (handle (EvConnect ctorThrows t r) (new_WebSocketManager throws))
       \<and> maxReconnectAttempts default_ws_config
            \<le> reconnectAttempts (run (EvConnect ctorThrows t r # before) (new_WebSocketManager throws))
       \<and> code \<noteq> 1000 \<longrightarrow>
        \<not> socket_alive (ws (run (EvConnect ctorThrows t r # before @ EvClose code now rand # after)
                               (new_WebSocketManager throws)))
      \<and> reconnectTimers (run (EvConnect ctorThrows t r # before @ EvClose code now rand # after)
                            (new_WebSocketManager throws)) = []
      \<and> \<not> isConnecting (run (EvConnect ctorThrows t r # before @ EvClose code now rand # after)
                            (new_WebSocketManager throws))
      \<and> \<not> connectionTimer (run (EvConnect ctorThrows t r # before @ EvClose code now rand # after)
                               (new_WebSocketManager throws))
      \<and> handle (EvReconnectTimer i ctorThrows' t' r')
           (run (EvConnect ctorThrows t r # before @ EvClose code now rand # after)
              (new_WebSocketManager throws))
          = run (EvConnect ctorThrows t r # before @ EvClose code now rand # after)
              (new_WebSocketManager throws))"
proof -
  let ?fresh = "new_WebSocketManager throws"
  let ?final = "run (EvConnect ctorThrows t r # before @ EvClose code now rand # after) ?fresh"
  have c0: "wsconfig ?fresh = default_ws_config" "reconnectAttempts ?fresh = 0"
    "connection_reconnectAttempts ?fresh = 0"
    by (simp_all add: new_WebSocketManager_def)
  have r: "reconnectAttempts (run evs ?fresh) \<le> maxReconnectAttempts default_ws_config
     \<and> connection_reconnectAttempts (run evs ?fresh) \<le> maxReconnectAttempts default_ws_config"
    using run_bound [of ?fresh evs] by (simp add: c0)
  have ten: "maxReconnectAttempts default_ws_config = 10" by (simp add: default_ws_config_def)
  have one: "maxReconnectAttempts (wsconfig m) \<le> reconnectAttempts m \<and> code \<noteq> 1000 \<longrightarrow>
        handle (EvClose code now rand) m
          = m\<lparr> ws := Some CLOSED, isConnecting := False, heartbeatTimer := False,
               connectionTimer := False, connection_isConnected := False,
               ui_notifications := ui_notifications m @ [gave_up now] \<rparr>
      \<and> reconnectTimers (handle (EvClose code now rand) m) = reconnectTimers m
      \<and> reconnectAttempts (handle (EvClose code now rand) m) = reconnectAttempts m
      \<and> ui_notifications (handle (EvClose code now rand) m) = ui_notifications m @ [gave_up now]
      \<and> note_persistent (gave_up now) \<and> note_type (gave_up now) = ''error''"
    using handleClose_gives_up [of "m\<lparr> ws := Some CLOSED \<rparr>" code now rand]
    by (simp add: gave_up_def)
  have many: "maxReconnectAttempts (wsconfig m) \<le> reconnectAttempts m \<and> (\<forall>c\<in>set cs. fst c \<noteq> 1000) \<longrightarrow>
        reconnectTimers (closures cs m) = reconnectTimers m
      \<and> reconnectAttempts (closures cs m) = reconnectAttempts m
      \<and> ui_notifications (closures cs m) = ui_notifications m @ map (\<lambda>c. gave_up (fst (snd c))) cs
      \<and> (cs \<noteq> [] \<longrightarrow>
           closures cs m
             = m\<lparr> ws := Some CLOSED, isConnecting := False, heartbeatTimer := False,
                  connectionTimer := False, connection_isConnected := False,
                  ui_notifications := ui_notifications m @ map (\<lambda>c. gave_up (fst (snd c))) cs \<rparr>)"
    using closures_give_up [of m cs] closures_full [of m cs] by blast
  have rest: "lifecycle (before @ EvClose code now rand # after)
          (handle (EvConnect ctorThrows t r) ?fresh)
       \<and> maxReconnectAttempts default_ws_config
            \<le> reconnectAttempts (run (EvConnect ctorThrows t r # before) ?fresh)
       \<and> code \<noteq> 1000 \<longrightarrow>
        \<not> socket_alive (ws ?final) \<and> reconnectTimers ?final = [] \<and> \<not> isConnecting ?final
      \<and> \<not> connectionTimer ?final
      \<and> handle (EvReconnectTimer i ctorThrows' t' r') ?final = ?final"
  proof (intro impI, elim conjE)
    assume "lifecycle (before @ EvClose code now rand # after)
              (handle (EvConnect ctorThrows t r) ?fresh)"
       and "maxReconnectAttempts default_ws_config
              \<le> reconnectAttempts (run (EvConnect ctorThrows t r # before) ?fresh)"
       and "code \<noteq> 1000"
    then have "at_rest ?final" by (rule gives_up_for_good)
    then have f: "\<not> socket_alive (ws ?final)" "reconnectTimers ?final = []"
        "\<not> isConnecting ?final" "\<not> connectionTimer ?final"
      unfolding at_rest_def by blast+
    have "handle (EvReconnectTimer i ctorThrows' t' r') ?final = ?final"
      by (simp only: handle.simps reconnectTimerFires_def f(2)) simp
    with f show "\<not> socket_alive (ws ?final) \<and> reconnectTimers ?final = [] \<and> \<not> isConnecting ?final
      \<and> \<not> connectionTimer ?final
      \<and> handle (EvReconnectTimer i ctorThrows' t' r') ?final = ?final"
      by blast
  qed
  from r ten one many rest show ?thesis by blast
qed

text \<open>
  \<open>exhausted_manager\<close> is at the maximum with a connecting socket. An abnormal closure
  leaves the counter at 10, schedules nothing and closes the socket, also when it is
  followed by two more; and after the run that leads there, the closure and three timer
  events, no socket is alive and no reconnect timer is pending.
\<close>

theorem reconnect_attempts_capped_witness:
  "maxReconnectAttempts (wsconfig exhausted_manager) \<le> reconnectAttempts exhausted_manager
   \<and> (1006::nat) \<noteq> 1000
   \<and> reconnectAttempts (handle (EvClose 1006 1 (1/2)) exhausted_manager) = 10
   \<and> reconnectTimers (handle (EvClose 1006 1 (1/2)) exhausted_manager) = []
   \<and> ws (handle (EvClose 1006 1 (1/2)) exhausted_manager) = Some CLOSED
   \<and> ui_notifications (handle (EvClose 1006 1 (1/2)) exhausted_manager) = [gave_up 1]
   \<and> reconnectTimers (closures [(1006, 2, 1/2), (1006, 3, 1/3)] exhausted_manager) = []
   \<and> reconnectAttempts (closures [(1006, 2, 1/2), (1006, 3, 1/3)] exhausted_manager) = 10
   \<and> lifecycle (concat (replicate 10 failed_attempt) @ EvClose 1006 1 (1/2) # afterwards)
        (handle (EvConnect False 0 0) (new_WebSocketManager (\<lambda>k. False)))
   \<and> \<not> socket_alive (ws (run (EvConnect False 0 0 # concat (replicate 10 failed_attempt)
                                  @ EvClose 1006 1 (1/2) # afterwards)
                               (new_WebSocketManager (\<lambda>k. False))))
   \<and> reconnectTimers (run (EvConnect False 0 0 # concat (replicate 10 failed_attempt)
                              @ EvClose 1006 1 (1/2) # afterwards)
                           (new_WebSocketManager (\<lambda>k. False))) = []"
proof -
  have h: "maxReconnectAttempts (wsconfig exhausted_manager) \<le> reconnectAttempts exhausted_manager"
    by (simp add: exhausted_fields default_ws_config_def)
  have h': "maxReconnectAttempts default_ws_config
              \<le> reconnectAttempts (run (EvConnect False 0 0 # concat (replicate 10 failed_attempt))
                                     (new_WebSocketManager (\<lambda>k. False)))"
    using h by (simp only: exhausted_fields(2)) (simp only: exhausted_manager_def)
  have c: "(1006::nat) \<noteq> 1000" by simp
  have cs: "\<forall>c\<in>set [(1006::nat, 2::real, 1/2::real), (1006, 3, 1/3)]. fst c \<noteq> 1000" by simp
  note l = exhausted_lifecycle
  note inst = reconnect_attempts_capped
         [of "[]" "\<lambda>k. False" exhausted_manager 1006 1 "1/2" "[(1006, 2, 1/2), (1006, 3, 1/3)]"
             "concat (replicate 10 failed_attempt)" afterwards False 0 0 0 False 0 0]
  from inst h c
  have e: "handle (EvClose 1006 1 (1/2)) exhausted_manager
          = exhausted_manager\<lparr> ws := Some CLOSED, isConnecting := False, heartbeatTimer := False,
               connectionTimer := False, connection_isConnected := False,
               ui_notifications := ui_notifications exhausted_manager @ [gave_up 1] \<rparr>"
    by blast
  have w: "ws (handle (EvClose 1006 1 (1/2)) exhausted_manager) = Some CLOSED"
    by (simp only: e) simp
  from inst h c cs
  have "reconnectTimers (handle (EvClose 1006 1 (1/2)) exhausted_manager)
          = reconnectTimers exhausted_manager
      \<and> reconnectAttempts (handle (EvClose 1006 1 (1/2)) exhausted_manager)
          = reconnectAttempts exhausted_manager
      \<and> ui_notifications (handle (EvClose 1006 1 (1/2)) exhausted_manager)
          = ui_notifications exhausted_manager @ [gave_up 1]
      \<and> reconnectTimers (closures [(1006, 2, 1/2), (1006, 3, 1/3)] exhausted_manager)
          = reconnectTimers exhausted_manager
      \<and> reconnectAttempts (closures [(1006, 2, 1/2), (1006, 3, 1/3)] exhausted_manager)
          = reconnectAttempts exhausted_manager"
    by blast
  then have first: "reconnectAttempts (handle (EvClose 1006 1 (1/2)) exhausted_manager) = 10
   \<and> reconnectTimers (handle (EvClose 1006 1 (1/2)) exhausted_manager) = []
   \<and> ui_notifications (handle (EvClose 1006 1 (1/2)) exhausted_manager) = [gave_up 1]
   \<and> reconnectTimers (closures [(1006, 2, 1/2), (1006, 3, 1/3)] exhausted_manager) = []
   \<and> reconnectAttempts (closures [(1006, 2, 1/2), (1006, 3, 1/3)] exhausted_manager) = 10"
    by (simp only: exhausted_fields append_Nil)
  from inst l h' c
  have last: "\<not> socket_alive (ws (run (EvConnect False 0 0 # concat (replicate 10 failed_attempt)
                                  @ EvClose 1006 1 (1/2) # afterwards)
                               (new_WebSocketManager (\<lambda>k. False))))
   \<and> reconnectTimers (run (EvConnect False 0 0 # concat (replicate 10 failed_attempt)
                              @ EvClose 1006 1 (1/2) # afterwards)
                           (new_WebSocketManager (\<lambda>k. False))) = []"
    by blast
  show ?thesis using h c w first l last by blast
qed

section \<open>Batched pixel updates\<close>

lemma handlePixelUpdate_ignores_updates:
  "handlePixelUpdate (message\<lparr> msg_updates := u \<rparr>) pixels = handlePixelUpdate message pixels"
  by (simp add: handlePixelUpdate_def)

text \<open>
  The legacy handler of websocket.js does what the claim says: a batched message has the
  effect of the single-cell messages of its list, in list order.
\<close>

lemma onmessage_batch_as_singles:
  "onmessage_pixel_update (message\<lparr> msg_updates := Some us \<rparr>) pixels
     = fold (\<lambda>u. onmessage_pixel_update (single_update u)) us pixels"
proof -
  have "(\<lambda>u. onmessage_pixel_update (single_update u))
          = (\<lambda>update. setPixel (Some (pixel_x update)) (Some (pixel_y update))
                         (Some (pixel_color update)))"
    by (intro ext) (simp add: onmessage_pixel_update_def single_update_def)
  then show ?thesis by (simp add: onmessage_pixel_update_def)
qed

text \<open>
  Claim C8 fails on the session manager. For the batched message \<open>batched_update\<close> a
  fresh manager leaves the cells (1, 2) and (3, 4) unset and stores \<open>undefined\<close> under
  the key \<open>"undefined,undefined"\<close>. The legacy handler sets both cells.
\<close>

theorem batched_update_not_applied:
  "canvas_pixels (handleMessage now batched_update (new_WebSocketManager throws)) (Some 1, Some 2) = None
   \<and> canvas_pixels (handleMessage now batched_update (new_WebSocketManager throws)) (Some 3, Some 4) = None
   \<and> canvas_pixels (handleMessage now batched_update (new_WebSocketManager throws)) (None, None)
        = Some None
   \<and> onmessage_pixel_update batched_update Map.empty (Some 1, Some 2) = Some (Some ''#FF0000'')
   \<and> onmessage_pixel_update batched_update Map.empty (Some 3, Some 4) = Some (Some ''#00FF00'')"
  by (simp add: handleMessage_def handlePixelUpdate_def batched_update_def new_WebSocketManager_def
        onmessage_pixel_update_def setPixel_def)

end
